theory Spec2Isabelle
  imports Complex_Main
begin

section \<open>Numbers, errors and dictionaries\<close>

text \<open>
  The program computes with Python floats.  Finite floats are modelled as exact reals
  (rounding is not modelled); the one non-finite value the program creates itself,
  \<^verbatim>\<open>float('inf')\<close>, is the constructor \<open>PInf\<close>.  Addition and comparison follow
  IEEE on these values: \<open>inf + x = inf\<close>, and nothing is greater than \<open>inf\<close>.
\<close>

datatype pyfloat = Fin real | PInf

instantiation pyfloat :: "{plus, linorder}"
begin

fun plus_pyfloat :: "pyfloat \<Rightarrow> pyfloat \<Rightarrow> pyfloat" where
  "Fin a + Fin b = Fin (a + b)"
| "PInf + y = PInf"
| "x + PInf = PInf"

fun less_eq_pyfloat :: "pyfloat \<Rightarrow> pyfloat \<Rightarrow> bool" where
  "Fin a \<le> Fin b \<longleftrightarrow> a \<le> b"
| "x \<le> PInf \<longleftrightarrow> True"
| "PInf \<le> Fin b \<longleftrightarrow> False"

fun less_pyfloat :: "pyfloat \<Rightarrow> pyfloat \<Rightarrow> bool" where
  "Fin a < Fin b \<longleftrightarrow> a < b"
| "Fin a < PInf \<longleftrightarrow> True"
| "PInf < y \<longleftrightarrow> False"

instance
proof
  fix x y z :: pyfloat
  show "x < y \<longleftrightarrow> x \<le> y \<and> \<not> y \<le> x"
    by (cases x; cases y) auto
  show "x \<le> x"
    by (cases x) auto
  show "x \<le> y \<Longrightarrow> y \<le> z \<Longrightarrow> x \<le> z"
    by (cases x; cases y; cases z) auto
  show "x \<le> y \<Longrightarrow> y \<le> x \<Longrightarrow> x = y"
    by (cases x; cases y) auto
  show "x \<le> y \<or> y \<le> x"
    by (cases x; cases y) auto
qed

end

datatype py_error = KeyError | IndexError | TypeError | ZeroDivisionError | ValueError

text \<open>
  A Python \<^verbatim>\<open>dict\<close> keeps its keys in insertion order and the program iterates over
  it, so a dict is an association list.  \<open>dict_set\<close> is \<^verbatim>\<open>d[k] = v\<close>: an existing key
  keeps its position and gets the new value, a new key goes to the end.
\<close>

type_synonym ('k, 'v) dict = "('k \<times> 'v) list"

fun dict_set :: "'k \<Rightarrow> 'v \<Rightarrow> ('k, 'v) dict \<Rightarrow> ('k, 'v) dict" where
  "dict_set k v [] = [(k, v)]"
| "dict_set k v ((k', v') # d) = (if k' = k then (k, v) # d else (k', v') # dict_set k v d)"

definition dict_get :: "('k, 'v) dict \<Rightarrow> 'k \<Rightarrow> 'v option" where
  "dict_get d k = map_of d k"

definition dict_keys :: "('k, 'v) dict \<Rightarrow> 'k list" where
  "dict_keys d = map fst d"

definition dict_has :: "('k, 'v) dict \<Rightarrow> 'k \<Rightarrow> bool" where
  "dict_has d k \<longleftrightarrow> k \<in> set (dict_keys d)"

section \<open>The graph and the state of the system\<close>

type_synonym coord = "real \<times> real"

type_synonym arista = "string \<times> string \<times> real"

record grafo =
  nodos :: "(string, coord) dict"
  aristas :: "arista list"

type_synonym dmat = "pyfloat list list"

type_synonym smat = "nat option list list"

section \<open>Floyd-Warshall preparation\<close>

text \<open>\<^verbatim>\<open>m[i][j] = v\<close> on a list of rows.\<close>

definition mset2 :: "'a list list \<Rightarrow> nat \<Rightarrow> nat \<Rightarrow> 'a \<Rightarrow> 'a list list" where
  "mset2 m i j v = m[i := (m ! i)[j := v]]"

text \<open>\<^verbatim>\<open>{nodo: i for i, nodo in enumerate(nodos)}\<close>\<close>

definition build_nodo_a_indice :: "string list \<Rightarrow> (string, nat) dict" where
  "build_nodo_a_indice ns = fold (\<lambda>(i, nodo) m. dict_set nodo i m) (enumerate 0 ns) []"

text \<open>\<^verbatim>\<open>{i: nodo for nodo, i in self.nodo_a_indice.items()}\<close>\<close>

definition build_indice_a_nodo :: "(string, nat) dict \<Rightarrow> (nat, string) dict" where
  "build_indice_a_nodo m = fold (\<lambda>(nodo, i) m'. dict_set i nodo m') m []"

text \<open>
  The two matrices, all \<open>inf\<close> and all \<open>None\<close>, then the diagonal
  (\<^verbatim>\<open>for i in range(n)\<close>).
\<close>

definition init_diag :: "nat \<Rightarrow> dmat \<times> smat \<Rightarrow> dmat \<times> smat" where
  "init_diag i = (\<lambda>(D, S). (mset2 D i i (Fin 0), mset2 S i i (Some i)))"

definition init_matrices :: "nat \<Rightarrow> dmat \<times> smat" where
  "init_matrices n =
     fold init_diag [0..<n] (replicate n (replicate n PInf), replicate n (replicate n None))"

text \<open>The loop over the edge list: an edge between known nodes lowers the entry, never raises it.\<close>

definition load_arista :: "(string, nat) dict \<Rightarrow> arista \<Rightarrow> dmat \<times> smat \<Rightarrow> dmat \<times> smat" where
  "load_arista idx = (\<lambda>(u, v, peso) (D, S).
     (case (dict_get idx u, dict_get idx v) of
        (Some i, Some j) \<Rightarrow>
          if Fin peso < D ! i ! j then (mset2 D i j (Fin peso), mset2 S i j (Some j)) else (D, S)
      | _ \<Rightarrow> (D, S)))"

definition load_aristas :: "(string, nat) dict \<Rightarrow> arista list \<Rightarrow> dmat \<times> smat \<Rightarrow> dmat \<times> smat" where
  "load_aristas idx es = fold (load_arista idx) es"

text \<open>
  The body of the innermost loop.  \<open>dik\<close> was read before the loop over \<open>j\<close>; the row
  \<open>k\<close> and the successor entry \<open>(i, k)\<close> are read from the matrices as they are now,
  as the source's aliases \<^verbatim>\<open>row_k\<close> and \<^verbatim>\<open>self.matriz_sucesores[i][k]\<close> do.
\<close>

definition relax :: "nat \<Rightarrow> nat \<Rightarrow> pyfloat \<Rightarrow> nat \<Rightarrow> dmat \<times> smat \<Rightarrow> dmat \<times> smat" where
  "relax k i dik j = (\<lambda>(D, S).
     (let alt = dik + D ! k ! j in
      if alt < D ! i ! j then (mset2 D i j alt, mset2 S i j (S ! i ! k)) else (D, S)))"

definition fw_row :: "nat \<Rightarrow> nat \<Rightarrow> nat \<Rightarrow> dmat \<times> smat \<Rightarrow> dmat \<times> smat" where
  "fw_row n k i = (\<lambda>(D, S).
     (let dik = D ! i ! k in
      if dik = PInf then (D, S) else fold (relax k i dik) [0..<n] (D, S)))"

definition fw_k :: "nat \<Rightarrow> nat \<Rightarrow> dmat \<times> smat \<Rightarrow> dmat \<times> smat" where
  "fw_k n k = fold (fw_row n k) [0..<n]"

definition floyd_warshall :: "nat \<Rightarrow> dmat \<times> smat \<Rightarrow> dmat \<times> smat" where
  "floyd_warshall n = fold (fw_k n) [0..<n]"

record servicio_emergencia =
  nombre :: string
  tipo :: string
  coordenadas_servicio :: coord
  telefono :: string
  especialidad :: string
  zona :: string

text \<open>
  The object \<^verbatim>\<open>SistemaRutasEmergenciaGuayaquil\<close>.  The index maps and the matrices do
  not exist before the first preparation; they are empty here, and no function reads
  them while \<open>fw_preparado\<close> is false.
\<close>

record sistema =
  servicios_emergencia :: "(string, servicio_emergencia list) dict"
  ubicaciones_referencia :: "(string, coord) dict"
  red_vial :: "grafo option"
  fw_preparado :: bool
  nodo_a_indice :: "(string, nat) dict"
  indice_a_nodo :: "(nat, string) dict"
  matriz_distancias :: dmat
  matriz_sucesores :: smat

definition inicializar_servicios :: "(string, servicio_emergencia list) dict" where
  "inicializar_servicios =
     [(''Hospital'',
        [\<lparr>nombre = ''Hospital del IESS Los Ceibos'', tipo = ''Hospital'',
          coordenadas_servicio = (-2.175396, -79.941602), telefono = ''(04) 380-5130'',
          especialidad = ''P'' @ [CHR 0xC3, CHR 0xBA] @ ''blico'', zona = []\<rparr>,
         \<lparr>nombre = ''InterHospital'', tipo = ''Hospital'',
          coordenadas_servicio = (-2.180693, -79.945202), telefono = ''(04) 375-0000'',
          especialidad = ''Privado'', zona = []\<rparr>]),
      (''Bomberos'',
        [\<lparr>nombre = ''Cuartel Bomberos #5'', tipo = ''Bomberos'',
          coordenadas_servicio = (-2.16239, -79.92644), telefono = ''(04) 371-4840'',
          especialidad = [], zona = ''Ceibos''\<rparr>]),
      (''Polic'' @ [CHR 0xC3, CHR 0xAD] @ ''a'',
        [\<lparr>nombre = ''UPC Los Ceibos'', tipo = ''Polic'' @ [CHR 0xC3, CHR 0xAD] @ ''a'',
          coordenadas_servicio = (-2.16567, -79.93697), telefono = ''911'',
          especialidad = [], zona = ''Los Ceibos''\<rparr>,
         \<lparr>nombre = ''UPC Los Ceibos 2'', tipo = ''Polic'' @ [CHR 0xC3, CHR 0xAD] @ ''a'',
          coordenadas_servicio = (-2.151886, -79.952468), telefono = ''911'',
          especialidad = [], zona = ''Los Ceibos''\<rparr>])]"

definition inicializar_ubicaciones :: "(string, coord) dict" where
  "inicializar_ubicaciones =
     [(''ESPOL'', (-2.1448, -79.9663)),
      (''FADCOM ESPOL'', (-2.144132, -79.962161)),
      (''FIEC ESPOL'', (-2.144503, -79.968048)),
      (''FCNM ESPOL'', (-2.147740, -79.967923)),
      (''FCSH ESPOL'', (-2.147568, -79.968294)),
      (''FCV ESPOL'', (-2.152106, -79.957153)),
      (''FICT ESPOL'', (-2.145025, -79.964813)),
      (''FIMCP ESPOL'', (-2.144065, -79.965581)),
      (''Los Ceibos'', (-2.1672, -79.9378)),
      (''Riocentro Ceibos'', (-2.177456, -79.943431)),
      (''Las Cumbres'', (-2.157333, -79.946304)),
      (''Colinas de los Ceibos'', (-2.163287, -79.945786))]"

definition sistema_inicial :: sistema where
  "sistema_inicial =
     \<lparr>servicios_emergencia = inicializar_servicios,
      ubicaciones_referencia = inicializar_ubicaciones,
      red_vial = None, fw_preparado = False, nodo_a_indice = [], indice_a_nodo = [],
      matriz_distancias = [], matriz_sucesores = []\<rparr>"

definition preparar_floyd_warshall :: "sistema \<Rightarrow> bool \<times> sistema" where
  "preparar_floyd_warshall s =
     (case red_vial s of
        None \<Rightarrow> (False, s)
      | Some g \<Rightarrow>
          (let ns = dict_keys (nodos g);
               idx = build_nodo_a_indice ns;
               n = length ns;
               (D, S) = floyd_warshall n (load_aristas idx (aristas g) (init_matrices n))
           in (True, s\<lparr>nodo_a_indice := idx, indice_a_nodo := build_indice_a_nodo idx,
                       matriz_distancias := D, matriz_sucesores := S, fw_preparado := True\<rparr>)))"

text \<open>\<^verbatim>\<open>m[a][b]\<close> for indices that are not negative: out of range raises.\<close>

definition lookup2 :: "'a list list \<Rightarrow> nat \<Rightarrow> nat \<Rightarrow> py_error + 'a" where
  "lookup2 m a b =
     (if a < length m then (if b < length (m ! a) then Inr (m ! a ! b) else Inl IndexError)
      else Inl IndexError)"

text \<open>\<^verbatim>\<open>d[k]\<close>: a missing key raises.\<close>

definition dict_at :: "('k, 'v) dict \<Rightarrow> 'k \<Rightarrow> py_error + 'v" where
  "dict_at d k = (case dict_get d k of None \<Rightarrow> Inl KeyError | Some v \<Rightarrow> Inr v)"

text \<open>A list comprehension or loop whose body may raise: the first error ends it.\<close>

fun map_err :: "('a \<Rightarrow> py_error + 'b) \<Rightarrow> 'a list \<Rightarrow> py_error + 'b list" where
  "map_err f [] = Inr []"
| "map_err f (x # xs) =
     (case f x of Inl e \<Rightarrow> Inl e
      | Inr y \<Rightarrow> (case map_err f xs of Inl e \<Rightarrow> Inl e | Inr ys \<Rightarrow> Inr (y # ys)))"

record ruta =
  ruta_nodos :: "string list"
  coordenadas :: "coord list"
  distancia_km :: pyfloat
  tiempo_min :: pyfloat

text \<open>\<^verbatim>\<open>(distancia_km / 25.0) * 60.0\<close>\<close>

fun tiempo_de :: "pyfloat \<Rightarrow> pyfloat" where
  "tiempo_de (Fin d) = Fin ((d / 25) * 60)"
| "tiempo_de PInf = PInf"

text \<open>
  The \<^verbatim>\<open>while actual != j\<close> loop of \<^verbatim>\<open>obtener_ruta\<close>.  Nothing in the loop bounds the
  number of rounds, so the result is an option: \<open>None\<close> is a walk that never ends.
  A walk that ends gives an error (an index out of range), \<open>Inr None\<close> (the source's
  \<^verbatim>\<open>return None\<close> on a missing successor) or the list of indices visited.
\<close>

partial_function (option) seguir_sucesores ::
  "smat \<Rightarrow> nat \<Rightarrow> nat \<Rightarrow> nat list \<Rightarrow> (py_error + nat list option) option" where
  "seguir_sucesores S j actual r =
     (if actual = j then Some (Inr (Some r))
      else (case lookup2 S actual j of
              Inl e \<Rightarrow> Some (Inl e)
            | Inr None \<Rightarrow> Some (Inr None)
            | Inr (Some nxt) \<Rightarrow> seguir_sucesores S j nxt (r @ [nxt])))"

definition bind_err :: "py_error + 'a \<Rightarrow> ('a \<Rightarrow> py_error + 'b) \<Rightarrow> py_error + 'b" where
  "bind_err x f = (case x of Inl e \<Rightarrow> Inl e | Inr a \<Rightarrow> f a)"

text \<open>\<^verbatim>\<open>self.red_vial["nodos"][nodo]\<close>\<close>

definition nodo_coord :: "sistema \<Rightarrow> string \<Rightarrow> py_error + coord" where
  "nodo_coord s nodo =
     (case red_vial s of None \<Rightarrow> Inl TypeError | Some g \<Rightarrow> dict_at (nodos g) nodo)"

text \<open>The part of \<^verbatim>\<open>obtener_ruta\<close> after the walk: names, coordinates as (lon, lat), distance, time.\<close>

definition armar_ruta :: "sistema \<Rightarrow> nat \<Rightarrow> nat \<Rightarrow> nat list \<Rightarrow> py_error + ruta" where
  "armar_ruta s i j r =
     bind_err (map_err (dict_at (indice_a_nodo s)) r) (\<lambda>ns.
     bind_err (map_err (nodo_coord s) ns) (\<lambda>cs.
     bind_err (lookup2 (matriz_distancias s) i j) (\<lambda>d.
       Inr \<lparr>ruta_nodos = ns, coordenadas = map (\<lambda>(lat, lon). (lon, lat)) cs,
            distancia_km = d, tiempo_min = tiempo_de d\<rparr>)))"

text \<open>
  \<^verbatim>\<open>obtener_ruta\<close>.  The outer option is whether the call returns at all; inside,
  \<open>Inl\<close> is a raised exception, \<open>Inr None\<close> the source's \<^verbatim>\<open>return None\<close>.
\<close>

definition obtener_ruta :: "sistema \<Rightarrow> string \<Rightarrow> string \<Rightarrow> (py_error + ruta option) option" where
  "obtener_ruta s origen destino =
     (if \<not> fw_preparado s then Some (Inr None)
      else (case (dict_get (nodo_a_indice s) origen, dict_get (nodo_a_indice s) destino) of
              (Some i, Some j) \<Rightarrow>
                (case lookup2 (matriz_sucesores s) i j of
                   Inl e \<Rightarrow> Some (Inl e)
                 | Inr None \<Rightarrow> Some (Inr None)
                 | Inr (Some _) \<Rightarrow>
                     (case seguir_sucesores (matriz_sucesores s) j i [i] of
                        None \<Rightarrow> None
                      | Some (Inl e) \<Rightarrow> Some (Inl e)
                      | Some (Inr None) \<Rightarrow> Some (Inr None)
                      | Some (Inr (Some r)) \<Rightarrow>
                          (case armar_ruta s i j r of
                             Inl e \<Rightarrow> Some (Inl e)
                           | Inr x \<Rightarrow> Some (Inr (Some x)))))
            | _ \<Rightarrow> Some (Inr None)))"

section \<open>Auxiliary notions for the proofs\<close>

definition wf_mat :: "nat \<Rightarrow> 'a list list \<Rightarrow> bool" where
  "wf_mat n M \<longleftrightarrow> length M = n \<and> (\<forall>i<n. length (M ! i) = n)"

definition d_below :: "nat \<Rightarrow> nat \<Rightarrow> nat \<Rightarrow> pyfloat \<Rightarrow> dmat \<times> smat \<Rightarrow> bool" where
  "d_below n i j c st \<longleftrightarrow> wf_mat n (fst st) \<and> fst st ! i ! j \<le> c"

definition idx_ok :: "nat \<Rightarrow> (string, nat) dict \<Rightarrow> bool" where
  "idx_ok n idx \<longleftrightarrow> (\<forall>u i. dict_get idx u = Some i \<longrightarrow> i < n)"

text \<open>A two-node example: one road from \<open>node_0\<close> to \<open>node_1\<close>.\<close>

definition grafo_ej :: grafo where
  "grafo_ej = \<lparr>nodos = [(''node_0'', (0, 0)), (''node_1'', (0, 1))],
         aristas = [(''node_0'', ''node_1'', 1)]\<rparr>"

definition sistema_ej :: sistema where
  "sistema_ej = sistema_inicial\<lparr>red_vial := Some grafo_ej\<rparr>"

definition base_inv :: "nat \<Rightarrow> dmat \<times> smat \<Rightarrow> bool" where
  "base_inv n st \<longleftrightarrow> wf_mat n (fst st) \<and> wf_mat n (snd st) \<and>
     (\<forall>a<n. fst st ! a ! a = Fin 0 \<and> snd st ! a ! a = Some a) \<and>
     (\<forall>a<n. \<forall>b<n. Fin 0 \<le> fst st ! a ! b)"

text \<open>
  The state of the relaxation when the outer loop has completed \<open>k\<close> rounds, round
  \<open>k\<close> has completed \<open>i\<close> rows, and row \<open>i\<close> has made \<open>j\<close> steps.
\<close>

definition fw_prefix :: "nat \<Rightarrow> dmat \<times> smat \<Rightarrow> nat \<Rightarrow> nat \<Rightarrow> nat \<Rightarrow> dmat \<times> smat" where
  "fw_prefix n st k i j =
     (let stk = fold (fw_k n) [0..<k] st;
          ski = fold (fw_row n k) [0..<i] stk;
          dik = fst ski ! i ! k
      in if dik = PInf then ski else fold (relax k i dik) [0..<j] ski)"

text \<open>The matrices after the edge list has been loaded, before the relaxation.\<close>

definition loaded :: "grafo \<Rightarrow> dmat \<times> smat" where
  "loaded g = load_aristas (build_nodo_a_indice (dict_keys (nodos g))) (aristas g)
                (init_matrices (length (dict_keys (nodos g))))"

text \<open>
  The invariant of the outer loop after \<open>k\<close> rounds, relative to the matrix \<open>D0\<close>
  the relaxation started from: entries are below \<open>D0\<close>, the triangle inequality holds
  through every intermediate node below \<open>k\<close>, every finite off-diagonal entry has a
  successor that is a first hop of \<open>D0\<close> and accounts for the entry, and an infinite
  entry has no successor.
\<close>

definition fw_inv :: "nat \<Rightarrow> dmat \<Rightarrow> nat \<Rightarrow> dmat \<times> smat \<Rightarrow> bool" where
  "fw_inv n D0 k st \<longleftrightarrow> base_inv n st \<and>
     (\<forall>a<n. \<forall>b<n. fst st ! a ! b \<le> D0 ! a ! b) \<and>
     (\<forall>a<n. \<forall>b<n. \<forall>c<k. fst st ! a ! b \<le> fst st ! a ! c + fst st ! c ! b) \<and>
     (\<forall>a<n. \<forall>b<n. a \<noteq> b \<longrightarrow> fst st ! a ! b \<noteq> PInf \<longrightarrow>
        (\<exists>t<n. snd st ! a ! b = Some t \<and> t \<noteq> a \<and> D0 ! a ! t \<noteq> PInf \<and>
               D0 ! a ! t + fst st ! t ! b \<le> fst st ! a ! b)) \<and>
     (\<forall>a<n. \<forall>b<n. fst st ! a ! b = PInf \<longrightarrow> snd st ! a ! b = None)"

text \<open>Every edge weight of the graph is positive, as the data model requires.\<close>

definition pesos_positivos :: "grafo \<Rightarrow> bool" where
  "pesos_positivos g \<longleftrightarrow> (\<forall>(u, v, w) \<in> set (aristas g). 0 < w)"

text \<open>
  What holds of the matrices while the edge list is loaded: diagonal and signs as in
  \<open>base_inv\<close>, off-diagonal entries positive, and the successor of a finite entry
  \<open>(a, b)\<close> is \<open>b\<close> itself.
\<close>

definition load_inv :: "nat \<Rightarrow> dmat \<times> smat \<Rightarrow> bool" where
  "load_inv n st \<longleftrightarrow> base_inv n st \<and>
     (\<forall>a<n. \<forall>b<n. a \<noteq> b \<longrightarrow> Fin 0 < fst st ! a ! b \<and>
        (fst st ! a ! b = PInf \<longrightarrow> snd st ! a ! b = None) \<and>
        (fst st ! a ! b \<noteq> PInf \<longrightarrow> snd st ! a ! b = Some b))"

text \<open>The length of a walk over indices, each hop counted with its entry of \<open>D0\<close>.\<close>

fun largo_idx :: "dmat \<Rightarrow> nat list \<Rightarrow> pyfloat" where
  "largo_idx D0 (x # y # r) = D0 ! x ! y + largo_idx D0 (y # r)"
| "largo_idx D0 r = Fin 0"

text \<open>All indices of a walk are below \<open>n\<close> and no hop stays where it is.\<close>

fun pasos_ok :: "nat \<Rightarrow> nat list \<Rightarrow> bool" where
  "pasos_ok n (x # y # r) \<longleftrightarrow> x \<noteq> y \<and> x < n \<and> pasos_ok n (y # r)"
| "pasos_ok n [x] \<longleftrightarrow> x < n"
| "pasos_ok n [] \<longleftrightarrow> True"

text \<open>The least weight of an edge from \<open>u\<close> to \<open>v\<close> in the edge list, \<open>inf\<close> if there is none.\<close>

fun peso_min :: "arista list \<Rightarrow> string \<Rightarrow> string \<Rightarrow> pyfloat" where
  "peso_min [] u v = PInf"
| "peso_min ((x, y, w) # es) u v =
     (if x = u \<and> y = v then min (Fin w) (peso_min es u v) else peso_min es u v)"

text \<open>The length of a route over node ids: the sum of the least edge weights of its hops.\<close>

fun largo_ruta :: "arista list \<Rightarrow> string list \<Rightarrow> pyfloat" where
  "largo_ruta es (x # y # r) = peso_min es x y + largo_ruta es (y # r)"
| "largo_ruta es r = Fin 0"

section \<open>Float arithmetic of the geometry\<close>

text \<open>
  The value of a finite float is a real number.  Comparison, \<^verbatim>\<open>max\<close> and \<^verbatim>\<open>min\<close> of
  floats are exact, so they are those of the reals.  Every other operation of the
  geometry rounds, and \<^verbatim>\<open>math.sin\<close>, \<^verbatim>\<open>math.cos\<close>, \<^verbatim>\<open>math.atan2\<close> are whatever the
  platform's library returns: which float comes out is not computed here.  The operations
  are the fields of a record, and what is proved below holds for whatever they return.
  What the language fixes is kept: \<^verbatim>\<open>math.sqrt\<close> of a negative number raises
  \<^verbatim>\<open>ValueError\<close>, a division by zero raises \<^verbatim>\<open>ZeroDivisionError\<close>, and a negative
  number to the power \<open>0.5\<close> is a complex number, which cannot be compared.
\<close>

record flops =
  f_add :: "real \<Rightarrow> real \<Rightarrow> real"
  f_sub :: "real \<Rightarrow> real \<Rightarrow> real"
  f_mul :: "real \<Rightarrow> real \<Rightarrow> real"
  f_div :: "real \<Rightarrow> real \<Rightarrow> real"
  f_pow :: "real \<Rightarrow> real \<Rightarrow> real"
  f_sqrt :: "real \<Rightarrow> real"
  f_sin :: "real \<Rightarrow> real"
  f_cos :: "real \<Rightarrow> real"
  f_atan2 :: "real \<Rightarrow> real \<Rightarrow> real"
  f_radians :: "real \<Rightarrow> real"
  f_degrees :: "real \<Rightarrow> real"

definition py_sqrt :: "flops \<Rightarrow> real \<Rightarrow> py_error + real" where
  "py_sqrt fl x = (if x < 0 then Inl ValueError else Inr (f_sqrt fl x))"

definition py_div :: "flops \<Rightarrow> real \<Rightarrow> real \<Rightarrow> py_error + real" where
  "py_div fl x y = (if y = 0 then Inl ZeroDivisionError else Inr (f_div fl x y))"

text \<open>The floats that the literals \<^verbatim>\<open>0.01\<close>, \<^verbatim>\<open>1e-12\<close> and \<^verbatim>\<open>1.1\<close> denote.\<close>

definition lit_0_01 :: real where
  "lit_0_01 = 5764607523034235 / 2 ^ 59"

definition lit_1e_12 :: real where
  "lit_1e_12 = 4951760157141521 / 2 ^ 92"

definition lit_1_1 :: real where
  "lit_1_1 = 2476979795053773 / 2 ^ 51"

text \<open>
  The arithmetic without rounding, for examples whose float computation is exact
  (zeros and ones).
\<close>

definition atan2_exacto :: "real \<Rightarrow> real \<Rightarrow> real" where
  "atan2_exacto y x =
     (if 0 < x then arctan (y / x)
      else if x < 0 then (if 0 \<le> y then arctan (y / x) + pi else arctan (y / x) - pi)
      else if 0 < y then pi / 2 else if y < 0 then - pi / 2 else 0)"

definition fl_exacta :: flops where
  "fl_exacta =
     \<lparr>f_add = (+), f_sub = (-), f_mul = (*), f_div = (/),
      f_pow = (\<lambda>x p. if p = 2 then x * x else if p = 1 / 2 then sqrt x else x powr p),
      f_sqrt = sqrt, f_sin = sin, f_cos = cos, f_atan2 = atan2_exacto,
      f_radians = (\<lambda>x. x * pi / 180), f_degrees = (\<lambda>x. x * 180 / pi)\<rparr>"

section \<open>Geodesic and planar distance\<close>

definition haversine_km :: "flops \<Rightarrow> coord \<Rightarrow> coord \<Rightarrow> py_error + real" where
  "haversine_km fl coord1 coord2 =
     (let (lat1, lon1) = coord1; (lat2, lon2) = coord2;
          R = 6371;
          dlat = f_radians fl (f_sub fl lat2 lat1);
          dlon = f_radians fl (f_sub fl lon2 lon1);
          a = f_add fl (f_pow fl (f_sin fl (f_div fl dlat 2)) 2)
                (f_mul fl (f_mul fl (f_cos fl (f_radians fl lat1)) (f_cos fl (f_radians fl lat2)))
                   (f_pow fl (f_sin fl (f_div fl dlon 2)) 2))
      in case py_sqrt fl a of
           Inl e \<Rightarrow> Inl e
         | Inr sa \<Rightarrow>
             (case py_sqrt fl (f_sub fl 1 a) of
                Inl e \<Rightarrow> Inl e
              | Inr sb \<Rightarrow> Inr (f_mul fl R (f_mul fl 2 (f_atan2 fl sa sb)))))"

definition latlon_to_xy :: "flops \<Rightarrow> real \<Rightarrow> real \<Rightarrow> real \<Rightarrow> real \<times> real" where
  "latlon_to_xy fl lat lon lat0 =
     (let R = 6371 in
      (f_mul fl (f_mul fl (f_radians fl lon) R) (f_cos fl (f_radians fl lat0)),
       f_mul fl (f_radians fl lat) R))"

definition xy_to_latlon :: "flops \<Rightarrow> real \<Rightarrow> real \<Rightarrow> real \<Rightarrow> py_error + (real \<times> real)" where
  "xy_to_latlon fl x y lat0 =
     (let R = 6371;
          lat = f_degrees fl (f_div fl y R)
      in case py_div fl x (f_mul fl R (f_cos fl (f_radians fl lat0))) of
           Inl e \<Rightarrow> Inl e
         | Inr q \<Rightarrow> Inr (lat, f_degrees fl q))"

section \<open>Strings\<close>


text \<open>\<^verbatim>\<open>s.replace(' ', '_')\<close>\<close>

definition replace_space :: "string \<Rightarrow> string" where
  "replace_space s = map (\<lambda>c. if c = CHR '' '' then CHR ''_'' else c) s"

text \<open>\<^verbatim>\<open>str(n)\<close> for a natural number: its decimal digits.\<close>

fun str_nat :: "nat \<Rightarrow> string" where
  "str_nat n = (if n < 10 then [char_of (48 + n)] else str_nat (n div 10) @ [char_of (48 + n mod 10)])"

declare str_nat.simps [simp del]

text \<open>\<^verbatim>\<open>s.lower()\<close> on ASCII letters.\<close>

definition lower :: "string \<Rightarrow> string" where
  "lower s = map (\<lambda>c. if 65 \<le> (of_char c :: nat) \<and> (of_char c :: nat) \<le> 90
                        then char_of ((of_char c :: nat) + 32) else c) s"

text \<open>A loop whose body may raise: the first error ends it.\<close>

fun fold_err :: "('a \<Rightarrow> 's \<Rightarrow> py_error + 's) \<Rightarrow> 'a list \<Rightarrow> 's \<Rightarrow> py_error + 's" where
  "fold_err f [] s = Inr s"
| "fold_err f (x # xs) s = (case f x s of Inl e \<Rightarrow> Inl e | Inr s' \<Rightarrow> fold_err f xs s')"

section \<open>Nearest road node\<close>



section \<open>Building the graph from ways\<close>

text \<open>
  An element of the map document: \<^verbatim>\<open>elemento.get("type")\<close>, the geometry if the key is
  there (a list of points \<open>(lat, lon)\<close>), and the tags \<^verbatim>\<open>oneway\<close> and \<^verbatim>\<open>junction\<close> as
  \<^verbatim>\<open>str\<close> gives them, if present.
\<close>

record elemento =
  el_type :: "string option"
  geometry :: "coord list option"
  tag_oneway :: "string option"
  tag_junction :: "string option"

definition es_way :: "elemento \<Rightarrow> bool" where
  "es_way el \<longleftrightarrow> el_type el = Some ''way'' \<and> geometry el \<noteq> None"

definition total_points :: "elemento list \<Rightarrow> nat" where
  "total_points els =
     fold (\<lambda>el tp. if es_way el then tp + length (the (geometry el)) else tp) els 0"

definition objetivo :: nat where
  "objetivo = max 500 (5000 - 150)"

text \<open>\<^verbatim>\<open>max(1, math.ceil((total_points * 1.1) / objetivo))\<close> when the total exceeds the target.\<close>

definition downsample_step_de :: "flops \<Rightarrow> nat \<Rightarrow> nat" where
  "downsample_step_de fl tp =
     (if tp > objetivo
      then max 1 (nat \<lceil>f_div fl (f_mul fl (real tp) lit_1_1) (real objetivo)\<rceil>)
      else 1)"

definition dir_mode_de :: "elemento \<Rightarrow> string" where
  "dir_mode_de el =
     (let oneway = lower (case tag_oneway el of None \<Rightarrow> ''no'' | Some t \<Rightarrow> t);
          junction = lower (case tag_junction el of None \<Rightarrow> [] | Some t \<Rightarrow> t)
      in if oneway \<in> {''yes'', ''true'', ''1''} then ''forward''
         else if oneway = ''-1'' then ''backward''
         else if junction = ''roundabout'' then ''forward''
         else ''both'')"

text \<open>The test of the point loop that is not \<^verbatim>\<open>continue\<close>: the point at \<open>idx\<close> is kept.\<close>

definition se_conserva :: "nat \<Rightarrow> nat \<Rightarrow> nat \<Rightarrow> bool" where
  "se_conserva downsample_step n idx \<longleftrightarrow>
     \<not> (downsample_step > 1 \<and> idx mod downsample_step \<noteq> 0 \<and> int idx \<noteq> int n - 1)"

text \<open>
  The state of the construction: \<^verbatim>\<open>coord_to_id\<close>, \<^verbatim>\<open>nodos\<close>, \<^verbatim>\<open>nodo_counter\<close>.  The
  key of a coordinate, \<^verbatim>\<open>f"{lat:.6f},{lon:.6f}"\<close>, is the decimal rendering of two floats,
  which the model does not compute: it is the parameter \<open>fmt\<close>.
\<close>

type_synonym construccion = "(string, string) dict \<times> (string, coord) dict \<times> nat"

definition paso_punto ::
  "(coord \<Rightarrow> string) \<Rightarrow> nat \<Rightarrow> nat \<Rightarrow> nat \<times> coord \<Rightarrow> construccion \<times> string list \<Rightarrow>
     py_error + construccion \<times> string list" where
  "paso_punto fmt downsample_step n = (\<lambda>(idx, punto) ((coord_to_id, nds, nodo_counter), way_nodes).
     if \<not> se_conserva downsample_step n idx then Inr ((coord_to_id, nds, nodo_counter), way_nodes)
     else
       (let coord_key = fmt punto;
            (coord_to_id', nds', nodo_counter') =
               (if \<not> dict_has coord_to_id coord_key
                then (let node_id = ''node_'' @ str_nat nodo_counter
                      in (dict_set coord_key node_id coord_to_id, dict_set node_id punto nds,
                          nodo_counter + 1))
                else (coord_to_id, nds, nodo_counter))
        in case dict_at coord_to_id' coord_key of
             Inl e \<Rightarrow> Inl e
           | Inr node_id \<Rightarrow> Inr ((coord_to_id', nds', nodo_counter'), way_nodes @ [node_id])))"

definition paso_arista ::
  "flops \<Rightarrow> (string, coord) dict \<Rightarrow> string \<Rightarrow> string list \<Rightarrow> nat \<Rightarrow> arista list \<Rightarrow>
     py_error + arista list" where
  "paso_arista fl nds dir_mode way_nodes i ars =
     (let n1 = way_nodes ! i; n2 = way_nodes ! (i + 1) in
      if n1 = n2 then Inr ars
      else case dict_at nds n1 of
             Inl e \<Rightarrow> Inl e
           | Inr coord1 \<Rightarrow>
               (case dict_at nds n2 of
                  Inl e \<Rightarrow> Inl e
                | Inr coord2 \<Rightarrow>
                    (case haversine_km fl coord1 coord2 of
                       Inl e \<Rightarrow> Inl e
                     | Inr h \<Rightarrow>
                         (let distancia = max h lit_0_01;
                              ars1 = (if dir_mode \<in> {''both'', ''forward''}
                                      then ars @ [(n1, n2, distancia)] else ars);
                              ars2 = (if dir_mode \<in> {''both'', ''backward''}
                                      then ars1 @ [(n2, n1, distancia)] else ars1)
                          in Inr ars2))))"

definition paso_elemento ::
  "flops \<Rightarrow> (coord \<Rightarrow> string) \<Rightarrow> nat \<Rightarrow> elemento \<Rightarrow> construccion \<times> arista list \<Rightarrow>
     py_error + construccion \<times> arista list" where
  "paso_elemento fl fmt downsample_step el = (\<lambda>(c, ars).
     if \<not> es_way el then Inr (c, ars)
     else
       (let geom = the (geometry el); dir_mode = dir_mode_de el in
        case fold_err (paso_punto fmt downsample_step (length geom)) (enumerate 0 geom) (c, []) of
          Inl e \<Rightarrow> Inl e
        | Inr ((coord_to_id, nds, nodo_counter), way_nodes) \<Rightarrow>
            (case fold_err (paso_arista fl nds dir_mode way_nodes) [0..<length way_nodes - 1] ars of
               Inl e \<Rightarrow> Inl e
             | Inr ars' \<Rightarrow> Inr ((coord_to_id, nds, nodo_counter), ars'))))"

definition procesar_red_osm :: "flops \<Rightarrow> (coord \<Rightarrow> string) \<Rightarrow> elemento list \<Rightarrow> py_error + grafo" where
  "procesar_red_osm fl fmt elements =
     (let downsample_step = downsample_step_de fl (total_points elements) in
      case fold_err (paso_elemento fl fmt downsample_step) elements (([], [], 0), []) of
        Inl e \<Rightarrow> Inl e
      | Inr ((coord_to_id, nds, nodo_counter), ars) \<Rightarrow> Inr \<lparr>nodos = nds, aristas = ars\<rparr>)"

text \<open>\<^verbatim>\<open>_red_fallback\<close>: one way of two points, without tags.\<close>

definition red_fallback :: "elemento list" where
  "red_fallback =
     [\<lparr>el_type = Some ''way'', geometry = Some [(-2.1448, -79.9663), (-2.1672, -79.9378)],
       tag_oneway = None, tag_junction = None\<rparr>]"

section \<open>Snapping a point onto the nearest edge\<close>

text \<open>The tuple \<^verbatim>\<open>(u, v, t, q_lat, q_lon, d)\<close>.\<close>

type_synonym proyeccion = "string \<times> string \<times> real \<times> real \<times> real \<times> real"

text \<open>
  One round of the loop over the edges.  \<open>best\<close> is \<open>None\<close> for the initial tuple,
  whose distance is \<open>inf\<close>, so the first edge always replaces it.
\<close>

definition paso_proyeccion ::
  "flops \<Rightarrow> (string, coord) dict \<Rightarrow> coord \<Rightarrow> arista \<Rightarrow> proyeccion option \<Rightarrow>
     py_error + proyeccion option" where
  "paso_proyeccion fl nds point_latlon = (\<lambda>(u, v, w) best.
     case dict_at nds u of
       Inl e \<Rightarrow> Inl e
     | Inr (a_lat, a_lon) \<Rightarrow>
         (case dict_at nds v of
            Inl e \<Rightarrow> Inl e
          | Inr (b_lat, b_lon) \<Rightarrow>
              (let (p_x, p_y) = latlon_to_xy fl (fst point_latlon) (snd point_latlon) (fst point_latlon);
                   (a_x, a_y) = latlon_to_xy fl a_lat a_lon (fst point_latlon);
                   (b_x, b_y) = latlon_to_xy fl b_lat b_lon (fst point_latlon);
                   vx = f_sub fl b_x a_x; vy = f_sub fl b_y a_y;
                   wx = f_sub fl p_x a_x; wy = f_sub fl p_y a_y;
                   denom = f_add fl (f_mul fl vx vx) (f_mul fl vy vy);
                   (t, qx, qy) =
                     (if denom \<le> lit_1e_12 then (0, a_x, a_y)
                      else (let t0 = f_div fl (f_add fl (f_mul fl wx vx) (f_mul fl wy vy)) denom;
                                t1 = (if t0 < 0 then 0 else if t0 > 1 then 1 else t0)
                            in (t1, f_add fl a_x (f_mul fl t1 vx), f_add fl a_y (f_mul fl t1 vy))));
                   dx = f_sub fl p_x qx; dy = f_sub fl p_y qy;
                   d2 = f_add fl (f_mul fl dx dx) (f_mul fl dy dy)
               in if d2 < 0 then Inl TypeError
                  else (let d = f_pow fl d2 (1 / 2) in
                        if (case best of None \<Rightarrow> True
                            | Some (bu, bv, bt, bq_lat, bq_lon, bd) \<Rightarrow> d < bd)
                        then (case xy_to_latlon fl qx qy (fst point_latlon) of
                                Inl e \<Rightarrow> Inl e
                              | Inr (q_lat, q_lon) \<Rightarrow> Inr (Some (u, v, t, q_lat, q_lon, d)))
                        else Inr best))))"

definition nearest_edge_projection :: "flops \<Rightarrow> sistema \<Rightarrow> coord \<Rightarrow> py_error + proyeccion option" where
  "nearest_edge_projection fl s point_latlon =
     (case red_vial s of
        None \<Rightarrow> Inr None
      | Some g \<Rightarrow>
          if aristas g = [] then Inr None
          else fold_err (paso_proyeccion fl (nodos g) point_latlon) (aristas g) None)"

text \<open>
  \<^verbatim>\<open>_split_edge_and_connect_point\<close>: the pair returned and the system after the call.
\<close>

definition split_edge_and_connect_point ::
  "flops \<Rightarrow> sistema \<Rightarrow> coord \<Rightarrow> string \<Rightarrow> py_error + (string option \<times> real option) \<times> sistema" where
  "split_edge_and_connect_point fl s point_latlon node_id_prefix =
     (case nearest_edge_projection fl s point_latlon of
        Inl e \<Rightarrow> Inl e
      | Inr None \<Rightarrow> Inr ((None, None), s)
      | Inr (Some (u, v, t, q_lat, q_lon, d)) \<Rightarrow>
          (case red_vial s of
             None \<Rightarrow> Inl TypeError
           | Some g \<Rightarrow>
               (let new_id = node_id_prefix @ ''_'' @ str_nat (length (nodos g));
                    nds = dict_set new_id (q_lat, q_lon) (nodos g);
                    dir_set = set (map (\<lambda>(a, b, w). (a, b)) (aristas g))
                in case dict_at nds u of
                     Inl e \<Rightarrow> Inl e
                   | Inr cu \<Rightarrow>
                       (case haversine_km fl cu (q_lat, q_lon) of
                          Inl e \<Rightarrow> Inl e
                        | Inr d_uq \<Rightarrow>
                            (case dict_at nds v of
                               Inl e \<Rightarrow> Inl e
                             | Inr cv \<Rightarrow>
                                 (case haversine_km fl (q_lat, q_lon) cv of
                                    Inl e \<Rightarrow> Inl e
                                  | Inr d_qv \<Rightarrow>
                                      (let ars1 = aristas g @
                                             (if (u, v) \<in> dir_set
                                              then [(u, new_id, max d_uq lit_0_01),
                                                    (new_id, v, max d_qv lit_0_01)]
                                              else []);
                                           ars2 = ars1 @
                                             (if (v, u) \<in> dir_set
                                              then [(v, new_id, max d_qv lit_0_01),
                                                    (new_id, u, max d_uq lit_0_01)]
                                              else [])
                                       in case haversine_km fl point_latlon (q_lat, q_lon) of
                                            Inl e \<Rightarrow> Inl e
                                          | Inr h \<Rightarrow>
                                              Inr ((Some new_id, Some (max h lit_0_01)),
                                                   s\<lparr>red_vial :=
                                                       Some \<lparr>nodos = nds, aristas = ars2\<rparr>\<rparr>))))))))"

section \<open>Attaching services and reference locations\<close>

text \<open>\<^verbatim>\<open>self.red_vial["nodos"][node_id] = coords\<close> and \<^verbatim>\<open>self.red_vial["aristas"].append(e)\<close>.\<close>

definition poner_nodo :: "string \<Rightarrow> coord \<Rightarrow> sistema \<Rightarrow> py_error + sistema" where
  "poner_nodo node_id c s =
     (case red_vial s of
        None \<Rightarrow> Inl TypeError
      | Some g \<Rightarrow> Inr (s\<lparr>red_vial := Some (g\<lparr>nodos := dict_set node_id c (nodos g)\<rparr>)\<rparr>))"

definition agregar_aristas :: "arista list \<Rightarrow> sistema \<Rightarrow> py_error + sistema" where
  "agregar_aristas es s =
     (case red_vial s of
        None \<Rightarrow> Inl TypeError
      | Some g \<Rightarrow> Inr (s\<lparr>red_vial := Some (g\<lparr>aristas := aristas g @ es\<rparr>)\<rparr>))"

text \<open>The body of the loop over the services; \<^verbatim>\<open>if new_node\<close> is true of a non-empty string.\<close>

definition integrar_servicio :: "flops \<Rightarrow> servicio_emergencia \<Rightarrow> sistema \<Rightarrow> py_error + sistema" where
  "integrar_servicio fl servicio s =
     (let node_id = ''servicio_'' @ replace_space (nombre servicio) in
      case poner_nodo node_id (coordenadas_servicio servicio) s of
        Inl e \<Rightarrow> Inl e
      | Inr s1 \<Rightarrow>
          (case split_edge_and_connect_point fl s1 (coordenadas_servicio servicio) ''snap'' of
             Inl e \<Rightarrow> Inl e
           | Inr ((Some new_node, Some d_conn), s_snap) \<Rightarrow>
               if new_node \<noteq> []
               then agregar_aristas [(node_id, new_node, d_conn), (new_node, node_id, d_conn)] s_snap
               else Inr s_snap
           | Inr (r, s_snap) \<Rightarrow> Inr s_snap))"

text \<open>The body of the loop over the reference locations.\<close>

definition integrar_referencia :: "flops \<Rightarrow> string \<times> coord \<Rightarrow> sistema \<Rightarrow> py_error + sistema" where
  "integrar_referencia fl = (\<lambda>(nombre_ref, coords) s.
     (let node_id = ''ref_'' @ replace_space nombre_ref in
      case poner_nodo node_id coords s of
        Inl e \<Rightarrow> Inl e
      | Inr s1 \<Rightarrow>
          (case split_edge_and_connect_point fl s1 coords ''snap'' of
             Inl e \<Rightarrow> Inl e
           | Inr ((Some new_node, Some d_conn), s_snap) \<Rightarrow>
               if new_node \<noteq> [] \<and> new_node \<noteq> node_id
               then (let d = min d_conn (1 / 2)
                     in agregar_aristas [(node_id, new_node, d), (new_node, node_id, d)] s_snap)
               else Inr s_snap
           | Inr (r, s_snap) \<Rightarrow> Inr s_snap)))"

definition integrar_servicios_en_red :: "flops \<Rightarrow> sistema \<Rightarrow> py_error + sistema" where
  "integrar_servicios_en_red fl s =
     (case red_vial s of
        None \<Rightarrow> Inr s
      | Some g \<Rightarrow>
          (case fold_err (integrar_servicio fl) (concat (map snd (servicios_emergencia s))) s of
             Inl e \<Rightarrow> Inl e
           | Inr s1 \<Rightarrow> fold_err (integrar_referencia fl) (ubicaciones_referencia s1) s1))"






text \<open>Every weight of an edge list is at least the float \<open>0.01\<close>.\<close>

definition pesos_desde_001 :: "arista list \<Rightarrow> bool" where
  "pesos_desde_001 es \<longleftrightarrow> (\<forall>(u, v, w) \<in> set es. lit_0_01 \<le> w)"

text \<open>The edge list and the node mapping of a system (empty without a graph).\<close>

definition aristas_de :: "sistema \<Rightarrow> arista list" where
  "aristas_de s = (case red_vial s of None \<Rightarrow> [] | Some g \<Rightarrow> aristas g)"

definition nodos_de :: "sistema \<Rightarrow> (string, coord) dict" where
  "nodos_de s = (case red_vial s of None \<Rightarrow> [] | Some g \<Rightarrow> nodos g)"

text \<open>A road along the equator, from longitude 0 to longitude 1, in both directions.\<close>

definition g_linea :: grafo where
  "g_linea = \<lparr>nodos = [(''node_0'', (0, 0)), (''node_1'', (0, 1))],
              aristas = [(''node_0'', ''node_1'', 1), (''node_1'', ''node_0'', 1)]\<rparr>"

definition s_linea :: sistema where
  "s_linea = sistema_inicial\<lparr>red_vial := Some g_linea\<rparr>"

text \<open>The same road as a map document, and a coordinate key that tells its two points apart.\<close>

definition doc_linea :: "elemento list" where
  "doc_linea = [\<lparr>el_type = Some ''way'', geometry = Some [(0, 0), (0, 1)],
                 tag_oneway = None, tag_junction = None\<rparr>]"

definition fmt_linea :: "coord \<Rightarrow> string" where
  "fmt_linea = (\<lambda>(lat, lon). if lon = 0 then ''0.000000,0.000000'' else ''0.000000,1.000000'')"

text \<open>The haversine distance of two points of the equator in the arithmetic without rounding.\<close>

definition h_ecuador :: "real \<Rightarrow> real \<Rightarrow> real" where
  "h_ecuador x y =
     6371 * (2 * atan2_exacto (sqrt (sin ((y - x) * pi / 180 / 2) * sin ((y - x) * pi / 180 / 2)))
                              (sqrt (1 - sin ((y - x) * pi / 180 / 2) * sin ((y - x) * pi / 180 / 2))))"

text \<open>A service and a reference location at the western end of the road.\<close>

definition srv_o :: servicio_emergencia where
  "srv_o = \<lparr>nombre = ''A B'', tipo = ''Hospital'', coordenadas_servicio = (0, 0),
            telefono = [], especialidad = [], zona = []\<rparr>"

definition s_uno :: sistema where
  "s_uno = s_linea\<lparr>servicios_emergencia := [(''Hospital'', [srv_o])],
                   ubicaciones_referencia := [(''R'', (0, 0))]\<rparr>"




section \<open>Properties of the preparation\<close>



lemma pf_add_zero_right: "x + Fin 0 = x" by (cases x) auto

lemma pf_add_zero_left: "Fin 0 + x = x" by (cases x) auto

lemma pf_add_mono: "a \<le> b \<Longrightarrow> c \<le> d \<Longrightarrow> a + c \<le> b + (d::pyfloat)"
  by (cases a; cases b; cases c; cases d) auto

lemma pf_add_assoc: "(a + b) + c = a + (b + (c::pyfloat))"
  by (cases a; cases b; cases c) auto

lemma pf_add_nonneg: "Fin 0 \<le> a \<Longrightarrow> Fin 0 \<le> b \<Longrightarrow> Fin 0 \<le> a + b"
  by (cases a; cases b) auto

lemma wf_mset2: "wf_mat n M \<Longrightarrow> wf_mat n (mset2 M i j v)"
  by (cases "i < n") (auto simp: wf_mat_def mset2_def nth_list_update)

lemma mset2_nth:
  "wf_mat n M \<Longrightarrow> i < n \<Longrightarrow> j < n \<Longrightarrow> a < n \<Longrightarrow> b < n \<Longrightarrow>
   mset2 M i j v ! a ! b = (if a = i \<and> b = j then v else M ! a ! b)"
  by (cases "i < n") (auto simp: wf_mat_def mset2_def nth_list_update)

lemma relax_fold:
  assumes wf: "wf_mat n D" "wf_mat n S" and kn: "k < n" and "i < n" and "m \<le> n"
    and diag: "D ! k ! k = Fin 0" and dik: "dik = D ! i ! k"
  shows "case fold (relax k i dik) [0..<m] (D, S) of (D', S') \<Rightarrow>
           wf_mat n D' \<and> wf_mat n S' \<and>
           (\<forall>a<n. \<forall>b<n.
              D' ! a ! b = (if a = i \<and> b < m \<and> dik + D ! k ! b < D ! i ! b then dik + D ! k ! b else D ! a ! b) \<and>
              S' ! a ! b = (if a = i \<and> b < m \<and> dik + D ! k ! b < D ! i ! b then S ! i ! k else S ! a ! b))"
  using \<open>m \<le> n\<close>
proof (induction m)
  case 0
  then show ?case using wf by simp
next
  case (Suc m)
  obtain D1 S1 where f: "fold (relax k i dik) [0..<m] (D, S) = (D1, S1)"
    by (cases "fold (relax k i dik) [0..<m] (D, S)")
  from Suc have mn: "m < n" by simp
  from Suc.IH f mn have wf1: "wf_mat n D1" "wf_mat n S1"
    and D1: "\<And>a b. a < n \<Longrightarrow> b < n \<Longrightarrow> D1 ! a ! b = (if a = i \<and> b < m \<and> dik + D ! k ! b < D ! i ! b then dik + D ! k ! b else D ! a ! b)"
    and S1: "\<And>a b. a < n \<Longrightarrow> b < n \<Longrightarrow> S1 ! a ! b = (if a = i \<and> b < m \<and> dik + D ! k ! b < D ! i ! b then S ! i ! k else S ! a ! b)"
    by auto
  have km: "D1 ! k ! m = D ! k ! m" using D1[OF kn mn] by simp
  have im: "D1 ! i ! m = D ! i ! m" using D1[OF \<open>i < n\<close> mn] by simp
  have "\<not> dik + D ! k ! k < D ! i ! k" using diag dik by (simp add: pf_add_zero_right)
  then have sik: "S1 ! i ! k = S ! i ! k" using S1[OF \<open>i < n\<close> kn] by simp
  have "fold (relax k i dik) [0..<Suc m] (D, S) = relax k i dik m (D1, S1)"
    using f by simp
  also have "\<dots> = (if dik + D ! k ! m < D ! i ! m then (mset2 D1 i m (dik + D ! k ! m), mset2 S1 i m (S ! i ! k)) else (D1, S1))"
    by (simp add: relax_def Let_def km im sik)
  finally show ?case
    using wf1 D1 S1 mn \<open>i < n\<close>
    by (auto simp: wf_mset2 mset2_nth less_Suc_eq)
qed

lemma fw_row_char:
  assumes wf: "wf_mat n D" "wf_mat n S" and kn: "k < n" and "i < n"
    and diag: "D ! k ! k = Fin 0"
  shows "case fw_row n k i (D, S) of (D', S') \<Rightarrow>
           wf_mat n D' \<and> wf_mat n S' \<and>
           (\<forall>a<n. \<forall>b<n.
              D' ! a ! b = (if a = i \<and> D ! i ! k + D ! k ! b < D ! i ! b then D ! i ! k + D ! k ! b else D ! a ! b) \<and>
              S' ! a ! b = (if a = i \<and> D ! i ! k + D ! k ! b < D ! i ! b then S ! i ! k else S ! a ! b))"
proof (cases "D ! i ! k = PInf")
  case True
  then show ?thesis using wf by (simp add: fw_row_def)
next
  case False
  have "fw_row n k i (D, S) = fold (relax k i (D ! i ! k)) [0..<n] (D, S)"
    using False by (simp add: fw_row_def)
  then show ?thesis
    using relax_fold[OF wf kn \<open>i < n\<close> le_refl diag refl] by (auto split: prod.splits)
qed

lemma fw_k_fold:
  assumes wf: "wf_mat n D" "wf_mat n S" and kn: "k < n" and "m \<le> n"
    and diag: "D ! k ! k = Fin 0"
  shows "case fold (fw_row n k) [0..<m] (D, S) of (D', S') \<Rightarrow>
           wf_mat n D' \<and> wf_mat n S' \<and>
           (\<forall>a<n. \<forall>b<n.
              D' ! a ! b = (if a < m \<and> D ! a ! k + D ! k ! b < D ! a ! b then D ! a ! k + D ! k ! b else D ! a ! b) \<and>
              S' ! a ! b = (if a < m \<and> D ! a ! k + D ! k ! b < D ! a ! b then S ! a ! k else S ! a ! b))"
  using \<open>m \<le> n\<close>
proof (induction m)
  case 0
  then show ?case using wf by simp
next
  case (Suc m)
  obtain D1 S1 where f: "fold (fw_row n k) [0..<m] (D, S) = (D1, S1)"
    by (cases "fold (fw_row n k) [0..<m] (D, S)")
  from Suc have mn: "m < n" by simp
  from Suc.IH f mn have wf1: "wf_mat n D1" "wf_mat n S1"
    and D1: "\<And>a b. a < n \<Longrightarrow> b < n \<Longrightarrow> D1 ! a ! b = (if a < m \<and> D ! a ! k + D ! k ! b < D ! a ! b then D ! a ! k + D ! k ! b else D ! a ! b)"
    and S1: "\<And>a b. a < n \<Longrightarrow> b < n \<Longrightarrow> S1 ! a ! b = (if a < m \<and> D ! a ! k + D ! k ! b < D ! a ! b then S ! a ! k else S ! a ! b)"
    by auto
  have rowk: "\<And>b. b < n \<Longrightarrow> D1 ! k ! b = D ! k ! b"
    using D1[OF kn] diag by (simp add: pf_add_zero_left)
  have rowm: "\<And>b. b < n \<Longrightarrow> D1 ! m ! b = D ! m ! b"
    using D1[OF mn] by simp
  have smk: "S1 ! m ! k = S ! m ! k" using S1[OF mn kn] by simp
  have diag1: "D1 ! k ! k = Fin 0" using rowk[OF kn] diag by simp
  obtain D2 S2 where g: "fw_row n k m (D1, S1) = (D2, S2)"
    by (cases "fw_row n k m (D1, S1)")
  from fw_row_char[OF wf1 kn mn diag1] g have wf2: "wf_mat n D2" "wf_mat n S2"
    and D2: "\<And>a b. a < n \<Longrightarrow> b < n \<Longrightarrow> D2 ! a ! b = (if a = m \<and> D1 ! m ! k + D1 ! k ! b < D1 ! m ! b then D1 ! m ! k + D1 ! k ! b else D1 ! a ! b)"
    and S2: "\<And>a b. a < n \<Longrightarrow> b < n \<Longrightarrow> S2 ! a ! b = (if a = m \<and> D1 ! m ! k + D1 ! k ! b < D1 ! m ! b then S1 ! m ! k else S1 ! a ! b)"
    by auto
  have "fold (fw_row n k) [0..<Suc m] (D, S) = (D2, S2)"
    using f g by simp
  moreover have "\<forall>a<n. \<forall>b<n.
              D2 ! a ! b = (if a < Suc m \<and> D ! a ! k + D ! k ! b < D ! a ! b then D ! a ! k + D ! k ! b else D ! a ! b) \<and>
              S2 ! a ! b = (if a < Suc m \<and> D ! a ! k + D ! k ! b < D ! a ! b then S ! a ! k else S ! a ! b)"
    using D1 S1 D2 S2 rowk rowm smk kn mn by (auto simp: less_Suc_eq)
  ultimately show ?case using wf2 by simp
qed

lemma fw_k_char:
  assumes wf: "wf_mat n D" "wf_mat n S" and kn: "k < n"
    and diag: "D ! k ! k = Fin 0"
  shows "case fw_k n k (D, S) of (D', S') \<Rightarrow>
           wf_mat n D' \<and> wf_mat n S' \<and>
           (\<forall>a<n. \<forall>b<n.
              D' ! a ! b = (if D ! a ! k + D ! k ! b < D ! a ! b then D ! a ! k + D ! k ! b else D ! a ! b) \<and>
              S' ! a ! b = (if D ! a ! k + D ! k ! b < D ! a ! b then S ! a ! k else S ! a ! b))"
  using fw_k_fold[OF wf kn le_refl diag] by (auto simp: fw_k_def split: prod.splits)

lemma fold_invariant:
  "P s \<Longrightarrow> (\<And>x s. x \<in> set xs \<Longrightarrow> P s \<Longrightarrow> P (f x s)) \<Longrightarrow> P (fold f xs s)"
  by (induction xs arbitrary: s) auto

lemma set_dict_set: "set (dict_set k v d) \<subseteq> insert (k, v) (set d)"
  by (induction d) (auto split: if_splits)

lemma dict_keys_dict_set:
  "dict_keys (dict_set k v d) = (if k \<in> set (dict_keys d) then dict_keys d else dict_keys d @ [k])"
  by (induction d) (force simp: dict_keys_def)+

lemma keys_dict_set: "set (dict_keys (dict_set k v d)) = insert k (set (dict_keys d))"
  by (auto simp: dict_keys_dict_set)

lemma dict_get_SomeD: "dict_get d k = Some v \<Longrightarrow> (k, v) \<in> set d"
  by (simp add: dict_get_def map_of_SomeD)

lemma dict_get_keys: "k \<in> set (dict_keys d) \<Longrightarrow> \<exists>v. dict_get d k = Some v"
  by (cases "map_of d k") (auto simp: dict_get_def dict_keys_def map_of_eq_None_iff)

lemma fold_enumerate_dict:
  "(u, i) \<in> set (fold (\<lambda>(i, nodo) m. dict_set nodo i m) (enumerate k xs) m0) \<Longrightarrow>
   (u, i) \<in> set m0 \<or> (k \<le> i \<and> i < k + length xs)"
proof (induction xs arbitrary: k m0)
  case Nil
  then show ?case by simp
next
  case (Cons x xs)
  from Cons.prems have "(u, i) \<in> set (fold (\<lambda>(i, nodo) m. dict_set nodo i m) (enumerate (Suc k) xs) (dict_set x k m0))"
    by simp
  from Cons.IH[OF this] show ?case
    using set_dict_set[of x k m0] by auto
qed

lemma fold_enumerate_keys:
  "set (dict_keys (fold (\<lambda>(i, nodo) m. dict_set nodo i m) (enumerate k xs) m0)) =
   set (dict_keys m0) \<union> set xs"
  by (induction xs arbitrary: k m0) (auto simp: keys_dict_set)

lemma indice_range:
  "dict_get (build_nodo_a_indice ns) u = Some i \<Longrightarrow> i < length ns"
  using fold_enumerate_dict[of u i 0 ns "[]"] dict_get_SomeD[of "build_nodo_a_indice ns" u i]
  by (simp add: build_nodo_a_indice_def)

lemma indice_known:
  "u \<in> set ns \<Longrightarrow> \<exists>i. dict_get (build_nodo_a_indice ns) u = Some i"
  using fold_enumerate_keys[of 0 ns "[]"]
  by (intro dict_get_keys) (simp add: build_nodo_a_indice_def dict_keys_def)

lemma wf_replicate: "wf_mat n (replicate n (replicate n x))"
  by (simp add: wf_mat_def)

lemma init_fold:
  assumes "m \<le> n"
  shows "case fold init_diag [0..<m] (replicate n (replicate n PInf), replicate n (replicate n None)) of
     (D, S) \<Rightarrow> wf_mat n D \<and> wf_mat n S \<and>
       (\<forall>a<n. \<forall>b<n. D ! a ! b = (if a = b \<and> a < m then Fin 0 else PInf) \<and>
                    S ! a ! b = (if a = b \<and> a < m then Some a else None))"
  using assms
proof (induction m)
  case 0
  then show ?case by (simp add: wf_replicate)
next
  case (Suc m)
  let ?st0 = "(replicate n (replicate n PInf), replicate n (replicate n None))"
  obtain D1 S1 where f: "fold init_diag [0..<m] ?st0 = (D1, S1)"
    by (cases "fold init_diag [0..<m] ?st0")
  from Suc have mn: "m < n" by simp
  from Suc.IH f mn have wf1: "wf_mat n D1" "wf_mat n S1"
    and D1: "\<And>a b. a < n \<Longrightarrow> b < n \<Longrightarrow> D1 ! a ! b = (if a = b \<and> a < m then Fin 0 else PInf)"
    and S1: "\<And>a b. a < n \<Longrightarrow> b < n \<Longrightarrow> S1 ! a ! b = (if a = b \<and> a < m then Some a else None)"
    by auto
  have g: "fold init_diag [0..<Suc m] ?st0 = (mset2 D1 m m (Fin 0), mset2 S1 m m (Some m))"
    using f by (simp add: init_diag_def)
  have "\<forall>a<n. \<forall>b<n. mset2 D1 m m (Fin 0) ! a ! b = (if a = b \<and> a < Suc m then Fin 0 else PInf) \<and>
                    mset2 S1 m m (Some m) ! a ! b = (if a = b \<and> a < Suc m then Some a else None)"
    using wf1 mn by (auto simp: mset2_nth D1 S1 less_Suc_eq)
  then show ?case
    unfolding g using wf1 by (simp add: wf_mset2)
qed

lemma init_matrices_char:
  "case init_matrices n of
     (D, S) \<Rightarrow> wf_mat n D \<and> wf_mat n S \<and>
       (\<forall>a<n. \<forall>b<n. D ! a ! b = (if a = b then Fin 0 else PInf) \<and>
                    S ! a ! b = (if a = b then Some a else None))"
  using init_fold[of n n] by (auto simp: init_matrices_def split: prod.splits)

lemma relax_below:
  "d_below n a b c st \<Longrightarrow> a < n \<Longrightarrow> b < n \<Longrightarrow> i < n \<Longrightarrow> j < n \<Longrightarrow> d_below n a b c (relax k i dik j st)"
  by (cases st) (auto simp: d_below_def relax_def Let_def wf_mset2 mset2_nth)

lemma fw_row_below:
  "d_below n a b c st \<Longrightarrow> a < n \<Longrightarrow> b < n \<Longrightarrow> i < n \<Longrightarrow> d_below n a b c (fw_row n k i st)"
proof -
  assume a: "d_below n a b c st" "a < n" "b < n" "i < n"
  have "d_below n a b c (fold (relax k i dik) [0..<n] st)" for dik
    using a(1) by (rule fold_invariant) (simp add: relax_below a)
  then show ?thesis
    using a(1) by (cases st) (simp add: fw_row_def Let_def)
qed

lemma fw_k_below:
  "d_below n a b c st \<Longrightarrow> a < n \<Longrightarrow> b < n \<Longrightarrow> d_below n a b c (fw_k n k st)"
  unfolding fw_k_def by (rule fold_invariant) (simp_all add: fw_row_below)

lemma floyd_warshall_below:
  "d_below n a b c st \<Longrightarrow> a < n \<Longrightarrow> b < n \<Longrightarrow> d_below n a b c (floyd_warshall n st)"
  unfolding floyd_warshall_def by (rule fold_invariant) (simp_all add: fw_k_below)

lemma load_arista_below:
  "d_below n a b c st \<Longrightarrow> a < n \<Longrightarrow> b < n \<Longrightarrow> idx_ok n idx \<Longrightarrow> d_below n a b c (load_arista idx e st)"
  by (cases st; cases e)
    (auto simp: d_below_def load_arista_def idx_ok_def wf_mset2 mset2_nth split: option.splits)

lemma load_arista_sets:
  "wf_mat n (fst st) \<Longrightarrow> idx_ok n idx \<Longrightarrow> dict_get idx u = Some i \<Longrightarrow> dict_get idx v = Some j \<Longrightarrow>
   d_below n i j (Fin w) (load_arista idx (u, v, w) st)"
  by (cases st)
    (auto simp: d_below_def load_arista_def idx_ok_def wf_mset2 mset2_nth split: option.splits)

lemma load_arista_wf:
  "wf_mat n (fst st) \<Longrightarrow> wf_mat n (fst (load_arista idx e st))"
  by (cases st; cases e)
    (auto simp: load_arista_def wf_mset2 split: option.splits)

lemma load_aristas_below:
  assumes "(u, v, w) \<in> set es" "wf_mat n (fst st)" "idx_ok n idx"
    "dict_get idx u = Some i" "dict_get idx v = Some j"
  shows "d_below n i j (Fin w) (load_aristas idx es st)"
  using assms(1,2)
proof (induction es arbitrary: st)
  case Nil
  then show ?case by simp
next
  case (Cons e es)
  have ij: "i < n" "j < n" using assms(3-5) by (auto simp: idx_ok_def)
  show ?case
  proof (cases "e = (u, v, w)")
    case True
    have "d_below n i j (Fin w) (load_arista idx e st)"
      unfolding True using Cons.prems(2) assms(3-5) by (rule load_arista_sets)
    then have "d_below n i j (Fin w) (fold (load_arista idx) es (load_arista idx e st))"
      by (rule fold_invariant) (simp add: load_arista_below ij assms(3))
    then show ?thesis by (simp add: load_aristas_def)
  next
    case False
    with Cons.prems have "(u, v, w) \<in> set es" by simp
    from Cons.IH[OF this load_arista_wf[OF Cons.prems(2)]]
    show ?thesis by (simp add: load_aristas_def)
  qed
qed

lemma idx_ok_build: "idx_ok (length ns) (build_nodo_a_indice ns)"
  by (auto simp: idx_ok_def dest: indice_range)

lemma preparar_Some:
  assumes "red_vial s = Some g"
  shows "preparar_floyd_warshall s =
     (True, s\<lparr>nodo_a_indice := build_nodo_a_indice (dict_keys (nodos g)),
               indice_a_nodo := build_indice_a_nodo (build_nodo_a_indice (dict_keys (nodos g))),
               matriz_distancias := fst (floyd_warshall (length (dict_keys (nodos g)))
                  (load_aristas (build_nodo_a_indice (dict_keys (nodos g))) (aristas g)
                     (init_matrices (length (dict_keys (nodos g)))))),
               matriz_sucesores := snd (floyd_warshall (length (dict_keys (nodos g)))
                  (load_aristas (build_nodo_a_indice (dict_keys (nodos g))) (aristas g)
                     (init_matrices (length (dict_keys (nodos g)))))),
               fw_preparado := True\<rparr>)"
  using assms by (simp add: preparar_floyd_warshall_def Let_def split: prod.splits)

text \<open>
  Claim C4.  After a successful preparation, every edge \<open>(u, v, w)\<close> of the prepared
  graph whose endpoints are nodes of the graph has a distance-matrix entry from \<open>u\<close>
  to \<open>v\<close> that is at most \<open>w\<close>: loading the edges puts a value of at most \<open>w\<close>
  there, and the relaxation only ever lowers an entry.
\<close>

theorem edge_distance_bound:
  assumes "red_vial s = Some g" and "(u, v, w) \<in> set (aristas g)"
    and "u \<in> set (dict_keys (nodos g))" and "v \<in> set (dict_keys (nodos g))"
  shows "\<exists>s' i j. preparar_floyd_warshall s = (True, s') \<and> fw_preparado s' \<and>
           dict_get (nodo_a_indice s') u = Some i \<and> dict_get (nodo_a_indice s') v = Some j \<and>
           i < length (matriz_distancias s') \<and> j < length (matriz_distancias s' ! i) \<and>
           matriz_distancias s' ! i ! j \<le> Fin w"
proof -
  let ?ns = "dict_keys (nodos g)"
  let ?n = "length ?ns"
  let ?idx = "build_nodo_a_indice ?ns"
  let ?st0 = "init_matrices ?n"
  let ?st1 = "load_aristas ?idx (aristas g) ?st0"
  let ?st2 = "floyd_warshall ?n ?st1"
  obtain i where i: "dict_get ?idx u = Some i" using indice_known[OF assms(3)] by blast
  obtain j where j: "dict_get ?idx v = Some j" using indice_known[OF assms(4)] by blast
  have ij: "i < ?n" "j < ?n" using i j indice_range by blast+
  have wf0: "wf_mat ?n (fst ?st0)"
    using init_matrices_char[of ?n] by (auto split: prod.splits)
  have "d_below ?n i j (Fin w) ?st1"
    using assms(2) wf0 idx_ok_build i j by (rule load_aristas_below)
  then have b: "d_below ?n i j (Fin w) ?st2"
    using ij by (rule floyd_warshall_below)
  then have "i < length (fst ?st2)" "j < length (fst ?st2 ! i)" "fst ?st2 ! i ! j \<le> Fin w"
    using ij by (auto simp: d_below_def wf_mat_def)
  then show ?thesis
    using i j by (simp add: preparar_Some[OF assms(1)])
qed

theorem edge_distance_bound_witness:
  "\<exists>s' i j. preparar_floyd_warshall sistema_ej = (True, s') \<and> fw_preparado s' \<and>
           dict_get (nodo_a_indice s') ''node_0'' = Some i \<and> dict_get (nodo_a_indice s') ''node_1'' = Some j \<and>
           i < length (matriz_distancias s') \<and> j < length (matriz_distancias s' ! i) \<and>
           matriz_distancias s' ! i ! j \<le> Fin 1"
  using edge_distance_bound[of sistema_ej grafo_ej "''node_0''" "''node_1''" 1]
  by (simp add: sistema_ej_def sistema_inicial_def grafo_ej_def dict_keys_def)

lemma relax_base:
  assumes "base_inv n st" "Fin 0 \<le> dik" "k < n" "i < n" "j < n"
  shows "base_inv n (relax k i dik j st)"
proof -
  obtain D S where st: "st = (D, S)" by (cases st)
  have wf: "wf_mat n D" "wf_mat n S" and diag: "\<And>a. a < n \<Longrightarrow> D ! a ! a = Fin 0 \<and> S ! a ! a = Some a"
    and nn: "\<And>a b. a < n \<Longrightarrow> b < n \<Longrightarrow> Fin 0 \<le> D ! a ! b"
    using assms(1) by (auto simp: base_inv_def st)
  let ?alt = "dik + D ! k ! j"
  have alt: "Fin 0 \<le> ?alt" using assms(2) nn[OF assms(3,5)] by (rule pf_add_nonneg)
  show ?thesis
  proof (cases "?alt < D ! i ! j")
    case False
    then show ?thesis using assms(1) by (simp add: relax_def st)
  next
    case True
    then have ne: "i \<noteq> j" using alt diag[OF assms(4)] by auto
    have r: "relax k i dik j st = (mset2 D i j ?alt, mset2 S i j (S ! i ! k))"
      using True by (simp add: relax_def st)
    show ?thesis unfolding r base_inv_def
      using wf diag nn alt ne assms(4,5) by (auto simp: wf_mset2 mset2_nth)
  qed
qed

lemma relax_fold_base:
  assumes "base_inv n st" "Fin 0 \<le> dik" "k < n" "i < n" "j \<le> n"
  shows "base_inv n (fold (relax k i dik) [0..<j] st)"
  using assms(1) by (rule fold_invariant) (use assms in \<open>simp add: relax_base\<close>)

lemma fw_row_base:
  assumes "base_inv n st" "k < n" "i < n"
  shows "base_inv n (fw_row n k i st)"
proof -
  obtain D S where st: "st = (D, S)" by (cases st)
  have "Fin 0 \<le> D ! i ! k" using assms by (auto simp: base_inv_def st)
  then have "base_inv n (fold (relax k i (D ! i ! k)) [0..<n] st)"
    using assms by (intro relax_fold_base) auto
  then show ?thesis using assms(1) by (simp add: fw_row_def st Let_def)
qed

lemma fw_row_fold_base:
  assumes "base_inv n st" "k < n" "i \<le> n"
  shows "base_inv n (fold (fw_row n k) [0..<i] st)"
  using assms(1) by (rule fold_invariant) (use assms in \<open>simp add: fw_row_base\<close>)

lemma fw_k_base: "base_inv n st \<Longrightarrow> k < n \<Longrightarrow> base_inv n (fw_k n k st)"
  unfolding fw_k_def by (rule fw_row_fold_base) auto

lemma fw_k_fold_base:
  assumes "base_inv n st" "k \<le> n"
  shows "base_inv n (fold (fw_k n) [0..<k] st)"
  using assms(1) by (rule fold_invariant) (use assms in \<open>simp add: fw_k_base\<close>)

lemma floyd_warshall_base: "base_inv n st \<Longrightarrow> base_inv n (floyd_warshall n st)"
  unfolding floyd_warshall_def by (rule fw_k_fold_base) auto

lemma fw_prefix_base:
  assumes "base_inv n st" "k < n" "i < n" "j \<le> n"
  shows "base_inv n (fw_prefix n st k i j)"
proof -
  let ?stk = "fold (fw_k n) [0..<k] st"
  let ?ski = "fold (fw_row n k) [0..<i] ?stk"
  have b: "base_inv n ?ski" using assms by (intro fw_row_fold_base fw_k_fold_base) auto
  then have "Fin 0 \<le> fst ?ski ! i ! k" using assms by (auto simp: base_inv_def)
  then have "base_inv n (fold (relax k i (fst ?ski ! i ! k)) [0..<j] ?ski)"
    using b assms by (intro relax_fold_base) auto
  then show ?thesis using b by (simp add: fw_prefix_def Let_def)
qed

lemma init_base: "base_inv n (init_matrices n)"
  using init_matrices_char[of n] by (auto simp: base_inv_def split: prod.splits)

lemma load_arista_base:
  assumes "base_inv n st" "idx_ok n idx" "0 \<le> w"
  shows "base_inv n (load_arista idx (u, v, w) st)"
proof -
  obtain D S where st: "st = (D, S)" by (cases st)
  have wf: "wf_mat n D" "wf_mat n S" and diag: "\<And>a. a < n \<Longrightarrow> D ! a ! a = Fin 0 \<and> S ! a ! a = Some a"
    and nn: "\<And>a b. a < n \<Longrightarrow> b < n \<Longrightarrow> Fin 0 \<le> D ! a ! b"
    using assms(1) by (auto simp: base_inv_def st)
  show ?thesis
  proof (cases "\<exists>i j. dict_get idx u = Some i \<and> dict_get idx v = Some j \<and> Fin w < D ! i ! j")
    case False
    then have "load_arista idx (u, v, w) st = st"
      by (auto simp: load_arista_def st split: option.splits)
    then show ?thesis using assms(1) by simp
  next
    case True
    then obtain i j where ij: "dict_get idx u = Some i" "dict_get idx v = Some j" "Fin w < D ! i ! j"
      by blast
    then have lt: "i < n" "j < n" using assms(2) by (auto simp: idx_ok_def)
    have ne: "i \<noteq> j" using ij(3) diag[OF lt(1)] assms(3) by auto
    have r: "load_arista idx (u, v, w) st = (mset2 D i j (Fin w), mset2 S i j (Some j))"
      using ij by (simp add: load_arista_def st)
    show ?thesis unfolding r base_inv_def
      using wf diag nn ne lt assms(3) by (auto simp: wf_mset2 mset2_nth)
  qed
qed

lemma load_aristas_base:
  assumes "base_inv n st" "idx_ok n idx" "\<forall>(u, v, w) \<in> set es. 0 \<le> w"
  shows "base_inv n (load_aristas idx es st)"
  unfolding load_aristas_def using assms(1)
proof (rule fold_invariant)
  fix e st' assume "e \<in> set es" "base_inv n st'"
  then show "base_inv n (load_arista idx e st')"
    using assms(2,3) by (cases e) (auto intro: load_arista_base)
qed

lemma loaded_base:
  assumes "\<forall>(u, v, w) \<in> set (aristas g). 0 \<le> w"
  shows "base_inv (length (dict_keys (nodos g))) (loaded g)"
  unfolding loaded_def using init_base idx_ok_build assms by (rule load_aristas_base)

lemma preparar_loaded:
  assumes "red_vial s = Some g"
  shows "preparar_floyd_warshall s =
     (True, s\<lparr>nodo_a_indice := build_nodo_a_indice (dict_keys (nodos g)),
               indice_a_nodo := build_indice_a_nodo (build_nodo_a_indice (dict_keys (nodos g))),
               matriz_distancias := fst (floyd_warshall (length (dict_keys (nodos g))) (loaded g)),
               matriz_sucesores := snd (floyd_warshall (length (dict_keys (nodos g))) (loaded g)),
               fw_preparado := True\<rparr>)"
  using preparar_Some[OF assms] by (simp add: loaded_def)

text \<open>
  Claim C3.  After a successful preparation of a graph whose edge weights are not
  negative, every node of the graph has distance \<open>0\<close> to itself and is its own
  successor, and every state the triple-nested relaxation passes through (after \<open>k\<close>
  complete outer rounds, \<open>i\<close> complete rows of round \<open>k\<close> and \<open>j\<close> steps of row
  \<open>i\<close>) has that same diagonal: no step writes a diagonal entry.
\<close>

theorem diagonal_preserved:
  assumes "red_vial s = Some g" and "\<forall>(u, v, w) \<in> set (aristas g). 0 \<le> w"
  shows "\<exists>s'. preparar_floyd_warshall s = (True, s') \<and> fw_preparado s' \<and>
     (\<forall>u \<in> set (dict_keys (nodos g)). \<exists>i.
         dict_get (nodo_a_indice s') u = Some i \<and>
         i < length (matriz_distancias s') \<and> i < length (matriz_distancias s' ! i) \<and>
         i < length (matriz_sucesores s') \<and> i < length (matriz_sucesores s' ! i) \<and>
         matriz_distancias s' ! i ! i = Fin 0 \<and> matriz_sucesores s' ! i ! i = Some i) \<and>
     (\<forall>k < length (nodos g). \<forall>i < length (nodos g). \<forall>j \<le> length (nodos g). \<forall>a < length (nodos g).
         fst (fw_prefix (length (nodos g)) (loaded g) k i j) ! a ! a = Fin 0 \<and>
         snd (fw_prefix (length (nodos g)) (loaded g) k i j) ! a ! a = Some a)"
proof -
  let ?ns = "dict_keys (nodos g)"
  let ?n = "length ?ns"
  have n: "length (nodos g) = ?n" by (simp add: dict_keys_def)
  have b1: "base_inv ?n (loaded g)" using assms(2) by (rule loaded_base)
  then have b2: "base_inv ?n (floyd_warshall ?n (loaded g))" by (rule floyd_warshall_base)
  have "\<exists>i. dict_get (build_nodo_a_indice ?ns) u = Some i \<and>
         i < length (fst (floyd_warshall ?n (loaded g))) \<and> i < length (fst (floyd_warshall ?n (loaded g)) ! i) \<and>
         i < length (snd (floyd_warshall ?n (loaded g))) \<and> i < length (snd (floyd_warshall ?n (loaded g)) ! i) \<and>
         fst (floyd_warshall ?n (loaded g)) ! i ! i = Fin 0 \<and> snd (floyd_warshall ?n (loaded g)) ! i ! i = Some i"
    if "u \<in> set ?ns" for u
  proof -
    obtain i where i: "dict_get (build_nodo_a_indice ?ns) u = Some i"
      using indice_known[OF \<open>u \<in> set ?ns\<close>] by blast
    then have "i < ?n" by (rule indice_range)
    then show ?thesis using b2 i by (auto simp: base_inv_def wf_mat_def)
  qed
  moreover have "fst (fw_prefix ?n (loaded g) k i j) ! a ! a = Fin 0 \<and>
         snd (fw_prefix ?n (loaded g) k i j) ! a ! a = Some a"
    if "k < ?n" "i < ?n" "j \<le> ?n" "a < ?n" for k i j a
    using fw_prefix_base[OF b1 that(1-3)] that(4) by (simp add: base_inv_def)
  ultimately show ?thesis
    unfolding n by (simp add: preparar_loaded[OF assms(1)])
qed

theorem diagonal_preserved_witness:
  "\<exists>s' i. preparar_floyd_warshall sistema_ej = (True, s') \<and> fw_preparado s' \<and>
      dict_get (nodo_a_indice s') ''node_1'' = Some i \<and>
      matriz_distancias s' ! i ! i = Fin 0 \<and> matriz_sucesores s' ! i ! i = Some i \<and>
      fst (fw_prefix 2 (loaded grafo_ej) 1 0 2) ! 1 ! 1 = Fin 0 \<and>
      snd (fw_prefix 2 (loaded grafo_ej) 1 0 2) ! 1 ! 1 = Some 1"
proof -
  have h1: "red_vial sistema_ej = Some grafo_ej" by (simp add: sistema_ej_def)
  have h2: "\<forall>(u, v, w) \<in> set (aristas grafo_ej). 0 \<le> w" by (simp add: grafo_ej_def)
  have n: "length (nodos grafo_ej) = 2" by (simp add: grafo_ej_def)
  have k: "''node_1'' \<in> set (dict_keys (nodos grafo_ej))" by (simp add: grafo_ej_def dict_keys_def)
  from diagonal_preserved[OF h1 h2] obtain s' where s': "preparar_floyd_warshall sistema_ej = (True, s')"
    "fw_preparado s'"
    and a: "\<forall>u \<in> set (dict_keys (nodos grafo_ej)). \<exists>i.
         dict_get (nodo_a_indice s') u = Some i \<and>
         i < length (matriz_distancias s') \<and> i < length (matriz_distancias s' ! i) \<and>
         i < length (matriz_sucesores s') \<and> i < length (matriz_sucesores s' ! i) \<and>
         matriz_distancias s' ! i ! i = Fin 0 \<and> matriz_sucesores s' ! i ! i = Some i"
    and b: "\<forall>k < length (nodos grafo_ej). \<forall>i < length (nodos grafo_ej). \<forall>j \<le> length (nodos grafo_ej). \<forall>a < length (nodos grafo_ej).
         fst (fw_prefix (length (nodos grafo_ej)) (loaded grafo_ej) k i j) ! a ! a = Fin 0 \<and>
         snd (fw_prefix (length (nodos grafo_ej)) (loaded grafo_ej) k i j) ! a ! a = Some a"
    by blast
  from a k obtain i where i: "dict_get (nodo_a_indice s') ''node_1'' = Some i"
     "matriz_distancias s' ! i ! i = Fin 0" "matriz_sucesores s' ! i ! i = Some i" by blast
  have "fst (fw_prefix 2 (loaded grafo_ej) 1 0 2) ! 1 ! 1 = Fin 0 \<and>
      snd (fw_prefix 2 (loaded grafo_ej) 1 0 2) ! 1 ! 1 = Some 1"
    using b[unfolded n, rule_format, of 1 0 2 1] by simp
  then show ?thesis using s' i by blast
qed

lemma pf_less_not_PInf: "(x::pyfloat) < y \<Longrightarrow> x \<noteq> PInf"
  by (cases x) auto

lemma pf_add_not_PInf: "x + y \<noteq> PInf \<Longrightarrow> x \<noteq> PInf \<and> y \<noteq> PInf"
  by (cases x; cases y) auto

lemma pf_add_left_mono: "c \<le> d \<Longrightarrow> a + c \<le> a + (d::pyfloat)"
  by (rule pf_add_mono) simp_all

lemma pf_add_right_mono: "a \<le> b \<Longrightarrow> a + c \<le> b + (c::pyfloat)"
  by (rule pf_add_mono) simp_all

lemma fw_k_inv:
  assumes inv: "fw_inv n D0 k st" and kn: "k < n"
  shows "fw_inv n D0 (Suc k) (fw_k n k st)"
proof -
  obtain D S where st: "st = (D, S)" by (cases st)
  obtain D' S' where st': "fw_k n k st = (D', S')" by (cases "fw_k n k st")
  have base: "base_inv n st" using inv by (simp add: fw_inv_def)
  have wf: "wf_mat n D" "wf_mat n S" and diag: "\<And>a. a < n \<Longrightarrow> D ! a ! a = Fin 0"
    and nn: "\<And>a b. a < n \<Longrightarrow> b < n \<Longrightarrow> Fin 0 \<le> D ! a ! b"
    using base by (auto simp: base_inv_def st)
  have mono: "\<And>a b. a < n \<Longrightarrow> b < n \<Longrightarrow> D ! a ! b \<le> D0 ! a ! b"
    and tri: "\<And>a b c. a < n \<Longrightarrow> b < n \<Longrightarrow> c < k \<Longrightarrow> D ! a ! b \<le> D ! a ! c + D ! c ! b"
    and suc: "\<And>a b. a < n \<Longrightarrow> b < n \<Longrightarrow> a \<noteq> b \<Longrightarrow> D ! a ! b \<noteq> PInf \<Longrightarrow>
        \<exists>t<n. S ! a ! b = Some t \<and> t \<noteq> a \<and> D0 ! a ! t \<noteq> PInf \<and> D0 ! a ! t + D ! t ! b \<le> D ! a ! b"
    and inf: "\<And>a b. a < n \<Longrightarrow> b < n \<Longrightarrow> D ! a ! b = PInf \<Longrightarrow> S ! a ! b = None"
    using inv by (auto simp: fw_inv_def st)
  from fw_k_char[OF wf kn diag[OF kn]] st st'
  have D': "\<And>a b. a < n \<Longrightarrow> b < n \<Longrightarrow>
          D' ! a ! b = (if D ! a ! k + D ! k ! b < D ! a ! b then D ! a ! k + D ! k ! b else D ! a ! b)"
    and S': "\<And>a b. a < n \<Longrightarrow> b < n \<Longrightarrow>
          S' ! a ! b = (if D ! a ! k + D ! k ! b < D ! a ! b then S ! a ! k else S ! a ! b)"
    by auto
  have L1: "D' ! a ! b \<le> D ! a ! b" if "a < n" "b < n" for a b
    using D'[OF that] by auto
  have L2: "D' ! a ! b \<le> D ! a ! k + D ! k ! b" if "a < n" "b < n" for a b
    using D'[OF that] by auto
  have L3: "D' ! a ! b = D ! a ! b \<or> D' ! a ! b = D ! a ! k + D ! k ! b" if "a < n" "b < n" for a b
    using D'[OF that] by auto
  have colk: "D' ! a ! k = D ! a ! k" if "a < n" for a
    using D'[OF that kn] diag[OF kn] by (simp add: pf_add_zero_right)
  have rowk: "D' ! k ! b = D ! k ! b" if "b < n" for b
    using D'[OF kn that] diag[OF kn] by (simp add: pf_add_zero_left)
  have base': "base_inv n (fw_k n k st)" using base kn by (rule fw_k_base)
  have mono': "D' ! a ! b \<le> D0 ! a ! b" if "a < n" "b < n" for a b
    using L1[OF that] mono[OF that] by (rule order_trans)
  have tri': "D' ! a ! b \<le> D' ! a ! c + D' ! c ! b" if ab: "a < n" "b < n" and c: "c < Suc k" for a b c
  proof (cases "c = k")
    case True
    show ?thesis using L2[OF ab] colk[OF ab(1)] rowk[OF ab(2)] True by simp
  next
    case False
    then have ck: "c < k" using c by simp
    then have cn: "c < n" using kn by simp
    consider (i) "D' ! a ! c = D ! a ! c" "D' ! c ! b = D ! c ! b"
      | (ii) "D' ! a ! c = D ! a ! k + D ! k ! c" "D' ! c ! b = D ! c ! b"
      | (iii) "D' ! a ! c = D ! a ! c" "D' ! c ! b = D ! c ! k + D ! k ! b"
      | (iv) "D' ! a ! c = D ! a ! k + D ! k ! c" "D' ! c ! b = D ! c ! k + D ! k ! b"
      using L3[OF ab(1) cn] L3[OF cn ab(2)] by blast
    then show ?thesis
    proof cases
      case i
      have "D' ! a ! b \<le> D ! a ! b" by (rule L1[OF ab])
      also have "\<dots> \<le> D ! a ! c + D ! c ! b" by (rule tri[OF ab ck])
      finally show ?thesis using i by simp
    next
      case ii
      have "D' ! a ! b \<le> D ! a ! k + D ! k ! b" by (rule L2[OF ab])
      also have "\<dots> \<le> D ! a ! k + (D ! k ! c + D ! c ! b)"
        by (rule pf_add_left_mono) (rule tri[OF kn ab(2) ck])
      finally show ?thesis using ii by (simp add: pf_add_assoc)
    next
      case iii
      have "D' ! a ! b \<le> D ! a ! k + D ! k ! b" by (rule L2[OF ab])
      also have "\<dots> \<le> (D ! a ! c + D ! c ! k) + D ! k ! b"
        by (rule pf_add_right_mono) (rule tri[OF ab(1) kn ck])
      finally show ?thesis using iii by (simp add: pf_add_assoc)
    next
      case iv
      have "Fin 0 \<le> D ! k ! c + D ! c ! k" using tri[OF kn kn ck] diag[OF kn] by simp
      then have "Fin 0 + D ! k ! b \<le> (D ! k ! c + D ! c ! k) + D ! k ! b"
        by (rule pf_add_right_mono)
      then have "D ! k ! b \<le> D ! k ! c + (D ! c ! k + D ! k ! b)"
        by (simp add: pf_add_zero_left pf_add_assoc)
      then have "D ! a ! k + D ! k ! b \<le> D ! a ! k + (D ! k ! c + (D ! c ! k + D ! k ! b))"
        by (rule pf_add_left_mono)
      with L2[OF ab] have "D' ! a ! b \<le> D ! a ! k + (D ! k ! c + (D ! c ! k + D ! k ! b))"
        by (rule order_trans)
      then show ?thesis using iv by (simp add: pf_add_assoc)
    qed
  qed
  have suc': "\<exists>t<n. S' ! a ! b = Some t \<and> t \<noteq> a \<and> D0 ! a ! t \<noteq> PInf \<and> D0 ! a ! t + D' ! t ! b \<le> D' ! a ! b"
    if ab: "a < n" "b < n" and ne: "a \<noteq> b" and fin: "D' ! a ! b \<noteq> PInf" for a b
  proof (cases "D ! a ! k + D ! k ! b < D ! a ! b")
    case False
    then have eq: "D' ! a ! b = D ! a ! b" "S' ! a ! b = S ! a ! b"
      using D'[OF ab] S'[OF ab] by auto
    then have "D ! a ! b \<noteq> PInf" using fin by simp
    from suc[OF ab ne this] obtain t where t: "t < n" "S ! a ! b = Some t" "t \<noteq> a"
      "D0 ! a ! t \<noteq> PInf" "D0 ! a ! t + D ! t ! b \<le> D ! a ! b" by blast
    have "D0 ! a ! t + D' ! t ! b \<le> D0 ! a ! t + D ! t ! b"
      by (rule pf_add_left_mono) (rule L1[OF t(1) ab(2)])
    then have "D0 ! a ! t + D' ! t ! b \<le> D ! a ! b" using t(5) by (rule order_trans)
    then show ?thesis using t eq by auto
  next
    case True
    then have eq: "D' ! a ! b = D ! a ! k + D ! k ! b" "S' ! a ! b = S ! a ! k"
      using D'[OF ab] S'[OF ab] by auto
    have ak: "a \<noteq> k"
    proof
      assume "a = k"
      then show False using True diag[OF kn] by (simp add: pf_add_zero_left)
    qed
    have "D ! a ! k \<noteq> PInf" using fin eq pf_add_not_PInf by metis
    from suc[OF ab(1) kn ak this] obtain t where t: "t < n" "S ! a ! k = Some t" "t \<noteq> a"
      "D0 ! a ! t \<noteq> PInf" "D0 ! a ! t + D ! t ! k \<le> D ! a ! k" by blast
    have "D0 ! a ! t + D' ! t ! b \<le> D0 ! a ! t + (D ! t ! k + D ! k ! b)"
      by (rule pf_add_left_mono) (rule L2[OF t(1) ab(2)])
    also have "\<dots> = (D0 ! a ! t + D ! t ! k) + D ! k ! b" by (simp add: pf_add_assoc)
    also have "\<dots> \<le> D ! a ! k + D ! k ! b" using t(5) by (rule pf_add_right_mono)
    finally show ?thesis using t eq by auto
  qed
  have inf': "S' ! a ! b = None" if ab: "a < n" "b < n" and "D' ! a ! b = PInf" for a b
  proof (cases "D ! a ! k + D ! k ! b < D ! a ! b")
    case True
    then have "D' ! a ! b < D ! a ! b" using D'[OF ab] by simp
    then show ?thesis using that(3) pf_less_not_PInf by blast
  next
    case False
    then show ?thesis using D'[OF ab] S'[OF ab] that(3) inf[OF ab] by simp
  qed
  show ?thesis
    unfolding fw_inv_def using base' mono' tri' suc' inf' by (simp add: st')
qed

lemma floyd_warshall_inv:
  assumes "fw_inv n D0 0 st"
  shows "fw_inv n D0 n (floyd_warshall n st)"
proof -
  have "k \<le> n \<Longrightarrow> fw_inv n D0 k (fold (fw_k n) [0..<k] st)" for k
  proof (induction k)
    case 0
    then show ?case using assms by simp
  next
    case (Suc k)
    then show ?case using fw_k_inv[of n D0 k "fold (fw_k n) [0..<k] st"] by simp
  qed
  then show ?thesis by (simp add: floyd_warshall_def)
qed

lemma fw_inv_base: "fw_inv n D0 k st \<Longrightarrow> base_inv n st"
  by (simp add: fw_inv_def)

lemma fw_inv_mono: "fw_inv n D0 k st \<Longrightarrow> a < n \<Longrightarrow> b < n \<Longrightarrow> fst st ! a ! b \<le> D0 ! a ! b"
  by (simp add: fw_inv_def)

lemma fw_inv_tri:
  "fw_inv n D0 k st \<Longrightarrow> a < n \<Longrightarrow> b < n \<Longrightarrow> c < k \<Longrightarrow> fst st ! a ! b \<le> fst st ! a ! c + fst st ! c ! b"
  by (simp add: fw_inv_def)

lemma fw_inv_suc:
  "fw_inv n D0 k st \<Longrightarrow> a < n \<Longrightarrow> b < n \<Longrightarrow> a \<noteq> b \<Longrightarrow> fst st ! a ! b \<noteq> PInf \<Longrightarrow>
   \<exists>t<n. snd st ! a ! b = Some t \<and> t \<noteq> a \<and> D0 ! a ! t \<noteq> PInf \<and>
          D0 ! a ! t + fst st ! t ! b \<le> fst st ! a ! b"
  by (simp add: fw_inv_def)

lemma fw_inv_inf:
  "fw_inv n D0 k st \<Longrightarrow> a < n \<Longrightarrow> b < n \<Longrightarrow> fst st ! a ! b = PInf \<Longrightarrow> snd st ! a ! b = None"
  by (simp add: fw_inv_def)

lemma base_inv_diag: "base_inv n st \<Longrightarrow> a < n \<Longrightarrow> fst st ! a ! a = Fin 0 \<and> snd st ! a ! a = Some a"
  by (simp add: base_inv_def)

lemma base_inv_wf: "base_inv n st \<Longrightarrow> wf_mat n (fst st) \<and> wf_mat n (snd st)"
  by (simp add: base_inv_def)

lemma load_inv_base: "load_inv n st \<Longrightarrow> base_inv n st"
  by (simp add: load_inv_def)

lemma load_inv_off:
  "load_inv n st \<Longrightarrow> a < n \<Longrightarrow> b < n \<Longrightarrow> a \<noteq> b \<Longrightarrow>
   Fin 0 < fst st ! a ! b \<and> (fst st ! a ! b = PInf \<longrightarrow> snd st ! a ! b = None) \<and>
   (fst st ! a ! b \<noteq> PInf \<longrightarrow> snd st ! a ! b = Some b)"
  by (simp add: load_inv_def)

lemma init_load_inv: "load_inv n (init_matrices n)"
proof -
  obtain D S where st: "init_matrices n = (D, S)" by (cases "init_matrices n")
  have c: "\<And>a b. a < n \<Longrightarrow> b < n \<Longrightarrow> D ! a ! b = (if a = b then Fin 0 else PInf) \<and>
                    S ! a ! b = (if a = b then Some a else None)"
    using init_matrices_char[of n] by (simp add: st)
  have "\<forall>a<n. \<forall>b<n. a \<noteq> b \<longrightarrow> Fin 0 < D ! a ! b \<and>
        (D ! a ! b = PInf \<longrightarrow> S ! a ! b = None) \<and> (D ! a ! b \<noteq> PInf \<longrightarrow> S ! a ! b = Some b)"
    by (simp add: c)
  then show ?thesis using init_base[of n] by (simp add: load_inv_def st)
qed

lemma load_arista_load_inv:
  assumes "load_inv n st" "idx_ok n idx" "0 < w"
  shows "load_inv n (load_arista idx (u, v, w) st)"
proof -
  obtain D S where st: "st = (D, S)" by (cases st)
  have base: "base_inv n st" using assms(1) by (simp add: load_inv_def)
  have wf: "wf_mat n D" "wf_mat n S" and diag: "\<And>a. a < n \<Longrightarrow> D ! a ! a = Fin 0"
    using base by (auto simp: base_inv_def st)
  have off: "\<And>a b. a < n \<Longrightarrow> b < n \<Longrightarrow> a \<noteq> b \<Longrightarrow> Fin 0 < D ! a ! b \<and>
        (D ! a ! b = PInf \<longrightarrow> S ! a ! b = None) \<and> (D ! a ! b \<noteq> PInf \<longrightarrow> S ! a ! b = Some b)"
    using assms(1) by (auto simp: load_inv_def st)
  have base': "base_inv n (load_arista idx (u, v, w) st)"
    using base assms(2) by (rule load_arista_base) (use assms(3) in simp)
  show ?thesis
  proof (cases "\<exists>i j. dict_get idx u = Some i \<and> dict_get idx v = Some j \<and> Fin w < D ! i ! j")
    case False
    then have "load_arista idx (u, v, w) st = st"
      by (auto simp: load_arista_def st split: option.splits)
    then show ?thesis using assms(1) by simp
  next
    case True
    then obtain i j where ij: "dict_get idx u = Some i" "dict_get idx v = Some j" "Fin w < D ! i ! j"
      by blast
    then have lt: "i < n" "j < n" using assms(2) by (auto simp: idx_ok_def)
    have r: "load_arista idx (u, v, w) st = (mset2 D i j (Fin w), mset2 S i j (Some j))"
      using ij by (simp add: load_arista_def st)
    have "\<forall>a<n. \<forall>b<n. a \<noteq> b \<longrightarrow> Fin 0 < mset2 D i j (Fin w) ! a ! b \<and>
        (mset2 D i j (Fin w) ! a ! b = PInf \<longrightarrow> mset2 S i j (Some j) ! a ! b = None) \<and>
        (mset2 D i j (Fin w) ! a ! b \<noteq> PInf \<longrightarrow> mset2 S i j (Some j) ! a ! b = Some b)"
      using wf lt off assms(3) by (auto simp: mset2_nth)
    then show ?thesis using base' unfolding load_inv_def r by simp
  qed
qed

lemma load_aristas_load_inv:
  assumes "load_inv n st" "idx_ok n idx" "\<forall>(u, v, w) \<in> set es. 0 < w"
  shows "load_inv n (load_aristas idx es st)"
  unfolding load_aristas_def using assms(1)
proof (rule fold_invariant)
  fix e st' assume "e \<in> set es" "load_inv n st'"
  then show "load_inv n (load_arista idx e st')"
    using assms(2,3) by (cases e) (auto intro: load_arista_load_inv)
qed

lemma loaded_load_inv:
  "pesos_positivos g \<Longrightarrow> load_inv (length (dict_keys (nodos g))) (loaded g)"
  unfolding loaded_def pesos_positivos_def
  using init_load_inv idx_ok_build by (rule load_aristas_load_inv)

lemma load_inv_fw_inv:
  assumes "load_inv n st"
  shows "fw_inv n (fst st) 0 st"
proof -
  have base: "base_inv n st" using assms by (simp add: load_inv_def)
  have "\<exists>t<n. snd st ! a ! b = Some t \<and> t \<noteq> a \<and> fst st ! a ! t \<noteq> PInf \<and>
               fst st ! a ! t + fst st ! t ! b \<le> fst st ! a ! b"
    if "a < n" "b < n" "a \<noteq> b" "fst st ! a ! b \<noteq> PInf" for a b
  proof -
    have "snd st ! a ! b = Some b" using load_inv_off[OF assms that(1-3)] that(4) by simp
    moreover have "fst st ! b ! b = Fin 0" using base_inv_diag[OF base that(2)] by simp
    ultimately show ?thesis using that by (auto simp: pf_add_zero_right)
  qed
  moreover have "snd st ! a ! b = None" if "a < n" "b < n" "fst st ! a ! b = PInf" for a b
  proof (cases "a = b")
    case True
    then show ?thesis using base_inv_diag[OF base that(1)] that(3) by simp
  next
    case False
    then show ?thesis using load_inv_off[OF assms that(1,2) False] that(3) by simp
  qed
  ultimately show ?thesis using base by (simp add: fw_inv_def)
qed

lemma prepared_inv:
  assumes "pesos_positivos g"
  shows "fw_inv (length (dict_keys (nodos g))) (fst (loaded g)) (length (dict_keys (nodos g)))
           (floyd_warshall (length (dict_keys (nodos g))) (loaded g))"
  by (intro floyd_warshall_inv load_inv_fw_inv loaded_load_inv assms)

lemma pf_strict_hop:
  assumes "Fin 0 < w" "w \<noteq> PInf" "x \<noteq> PInf" "x = w + y"
  shows "y < x"
  using assms by (cases w; cases x; cases y) auto

lemma next_hop:
  assumes li: "load_inv n st0" and inv: "fw_inv n (fst st0) n st"
    and ab: "a < n" "b < n" "a \<noteq> b" and fin: "fst st ! a ! b \<noteq> PInf"
  shows "\<exists>t<n. snd st ! a ! b = Some t \<and> t \<noteq> a \<and> fst st0 ! a ! t \<noteq> PInf \<and>
           fst st ! a ! b = fst st0 ! a ! t + fst st ! t ! b \<and> fst st ! t ! b < fst st ! a ! b"
proof -
  from fw_inv_suc[OF inv ab fin] obtain t where t: "t < n" "snd st ! a ! b = Some t" "t \<noteq> a"
      "fst st0 ! a ! t \<noteq> PInf" "fst st0 ! a ! t + fst st ! t ! b \<le> fst st ! a ! b"
    by blast
  have "fst st ! a ! b \<le> fst st ! a ! t + fst st ! t ! b"
    by (rule fw_inv_tri[OF inv ab(1,2) t(1)])
  also have "\<dots> \<le> fst st0 ! a ! t + fst st ! t ! b"
    by (rule pf_add_right_mono) (rule fw_inv_mono[OF inv ab(1) t(1)])
  finally have eq: "fst st ! a ! b = fst st0 ! a ! t + fst st ! t ! b"
    using t(5) by (rule order_antisym)
  have "Fin 0 < fst st0 ! a ! t" using load_inv_off[OF li ab(1) t(1)] t(3) by simp
  then have "fst st ! t ! b < fst st ! a ! b"
    using t(4) fin eq by (rule pf_strict_hop)
  then show ?thesis using t eq by blast
qed

lemma lookup2_wf: "wf_mat n m \<Longrightarrow> a < n \<Longrightarrow> b < n \<Longrightarrow> lookup2 m a b = Inr (m ! a ! b)"
  by (simp add: lookup2_def wf_mat_def)

lemma pf_finite_less: "(y::pyfloat) < x \<Longrightarrow> y \<noteq> PInf"
  by (cases y) auto

lemma walk_reaches:
  assumes li: "load_inv n st0" and inv: "fw_inv n (fst st0) n st" and jn: "j < n"
  shows "a < n \<Longrightarrow> fst st ! a ! j \<noteq> PInf \<Longrightarrow>
     \<exists>r. seguir_sucesores (snd st) j a pre = Some (Inr (Some (pre @ r))) \<and>
         last (a # r) = j \<and> pasos_ok n (a # r) \<and> largo_idx (fst st0) (a # r) = fst st ! a ! j"
proof (induction "card {x. x < n \<and> fst st ! x ! j < fst st ! a ! j}" arbitrary: a pre rule: less_induct)
  case less
  have wfS: "wf_mat n (snd st)" using base_inv_wf[OF fw_inv_base[OF inv]] by simp
  show ?case
  proof (cases "a = j")
    case True
    have "seguir_sucesores (snd st) j a pre = Some (Inr (Some (pre @ [])))"
      using True by (subst seguir_sucesores.simps) simp
    moreover have "fst st ! j ! j = Fin 0" using base_inv_diag[OF fw_inv_base[OF inv] jn] by simp
    ultimately show ?thesis using True jn by auto
  next
    case False
    from next_hop[OF li inv less.prems(1) jn False less.prems(2)]
    obtain t where t: "t < n" "snd st ! a ! j = Some t" "t \<noteq> a" "fst st0 ! a ! t \<noteq> PInf"
      "fst st ! a ! j = fst st0 ! a ! t + fst st ! t ! j" "fst st ! t ! j < fst st ! a ! j"
      by blast
    have fin: "fst st ! t ! j \<noteq> PInf" using t(6) by (rule pf_finite_less)
    have "{x. x < n \<and> fst st ! x ! j < fst st ! t ! j} \<subset> {x. x < n \<and> fst st ! x ! j < fst st ! a ! j}"
      using t(1,6) by auto
    then have "card {x. x < n \<and> fst st ! x ! j < fst st ! t ! j} < card {x. x < n \<and> fst st ! x ! j < fst st ! a ! j}"
      by (intro psubset_card_mono) auto
    from less.hyps[OF this t(1) fin, of "pre @ [t]"]
    obtain r where r: "seguir_sucesores (snd st) j t (pre @ [t]) = Some (Inr (Some ((pre @ [t]) @ r)))"
      "last (t # r) = j" "pasos_ok n (t # r)" "largo_idx (fst st0) (t # r) = fst st ! t ! j"
      by blast
    have "seguir_sucesores (snd st) j a pre = seguir_sucesores (snd st) j t (pre @ [t])"
      using False t(2) lookup2_wf[OF wfS less.prems(1) jn]
      by (subst seguir_sucesores.simps) simp
    then have "seguir_sucesores (snd st) j a pre = Some (Inr (Some (pre @ (t # r))))"
      using r(1) by simp
    moreover have "last (a # t # r) = j" using r(2) by simp
    moreover have "pasos_ok n (a # t # r)" using r(3) t(3) less.prems(1) by simp
    moreover have "largo_idx (fst st0) (a # t # r) = fst st ! a ! j" using r(4) t(5) by simp
    ultimately show ?thesis by blast
  qed
qed

lemma upt_2: "[0..<2] = [0, Suc 0]"
  by (simp add: upt_rec)

lemma numeral_2_Suc: "(2::nat) = Suc (Suc 0)" by simp

lemma loaded_g2:
  "loaded grafo_ej = ([[Fin 0, Fin 1], [PInf, Fin 0]], [[Some 0, Some (Suc 0)], [None, Some (Suc 0)]])"
  by (simp add: loaded_def grafo_ej_def dict_keys_def build_nodo_a_indice_def init_matrices_def upt_2
      init_diag_def mset2_def load_aristas_def load_arista_def dict_get_def)

lemma fw_g2:
  "floyd_warshall 2 (loaded grafo_ej) =
     ([[Fin 0, Fin 1], [PInf, Fin 0]], [[Some 0, Some (Suc 0)], [None, Some (Suc 0)]])"
  by (simp add: loaded_g2 floyd_warshall_def fw_k_def fw_row_def relax_def upt_2 mset2_def Let_def)

lemma preparar_s2:
  "preparar_floyd_warshall sistema_ej =
     (True, sistema_ej\<lparr>nodo_a_indice := [(''node_0'', 0), (''node_1'', Suc 0)],
                indice_a_nodo := [(0, ''node_0''), (Suc 0, ''node_1'')],
                matriz_distancias := [[Fin 0, Fin 1], [PInf, Fin 0]],
                matriz_sucesores := [[Some 0, Some (Suc 0)], [None, Some (Suc 0)]],
                fw_preparado := True\<rparr>)"
proof -
  have r: "red_vial sistema_ej = Some grafo_ej" by (simp add: sistema_ej_def)
  have n: "length (dict_keys (nodos grafo_ej)) = 2" by (simp add: grafo_ej_def dict_keys_def)
  have i: "build_nodo_a_indice (dict_keys (nodos grafo_ej)) = [(''node_0'', 0), (''node_1'', Suc 0)]"
    by (simp add: grafo_ej_def dict_keys_def build_nodo_a_indice_def)
  show ?thesis
    unfolding preparar_loaded[OF r] n fw_g2 i by (simp add: build_indice_a_nodo_def)
qed

text \<open>
  Claim C10.  After a successful preparation of a graph with positive edge weights, for
  every pair of known node ids whose successor entry is not \<open>None\<close>, the walk along the
  successor entries towards the destination returns: it ends at the destination index
  after finitely many steps, without meeting a \<open>None\<close> entry or an index out of range.
\<close>

theorem successor_walk_terminates:
  assumes "red_vial s = Some g" and "pesos_positivos g"
    and "preparar_floyd_warshall s = (ok, s')"
    and "dict_get (nodo_a_indice s') u = Some i" and "dict_get (nodo_a_indice s') v = Some j"
    and "matriz_sucesores s' ! i ! j \<noteq> None"
  shows "\<exists>r. seguir_sucesores (matriz_sucesores s') j i [i] = Some (Inr (Some r)) \<and>
             hd r = i \<and> last r = j \<and> pasos_ok (length (nodos g)) r"
proof -
  let ?n = "length (dict_keys (nodos g))"
  let ?st = "floyd_warshall ?n (loaded g)"
  have n: "length (nodos g) = ?n" by (simp add: dict_keys_def)
  have s': "nodo_a_indice s' = build_nodo_a_indice (dict_keys (nodos g))"
    "matriz_sucesores s' = snd ?st"
    using assms(3) by (auto simp: preparar_loaded[OF assms(1)])
  have ij: "i < ?n" "j < ?n" using assms(4,5) indice_range unfolding s' by blast+
  have li: "load_inv ?n (loaded g)" using assms(2) by (rule loaded_load_inv)
  have inv: "fw_inv ?n (fst (loaded g)) ?n ?st" using assms(2) by (rule prepared_inv)
  have fin: "fst ?st ! i ! j \<noteq> PInf"
    using fw_inv_inf[OF inv ij] assms(6) unfolding s' by blast
  from walk_reaches[OF li inv ij(2) ij(1) fin, of "[i]"]
  obtain r where r: "seguir_sucesores (snd ?st) j i [i] = Some (Inr (Some ([i] @ r)))"
    "last (i # r) = j" "pasos_ok ?n (i # r)" by blast
  then show ?thesis unfolding s' n by auto
qed

theorem successor_walk_terminates_witness:
  "\<exists>r. seguir_sucesores (matriz_sucesores (snd (preparar_floyd_warshall sistema_ej))) (Suc 0) 0 [0] =
          Some (Inr (Some r)) \<and>
       hd r = 0 \<and> last r = Suc 0 \<and> pasos_ok (length (nodos grafo_ej)) r"
proof -
  have h1: "red_vial sistema_ej = Some grafo_ej" by (simp add: sistema_ej_def)
  have h2: "pesos_positivos grafo_ej" by (simp add: pesos_positivos_def grafo_ej_def)
  have h3: "preparar_floyd_warshall sistema_ej = (True, snd (preparar_floyd_warshall sistema_ej))"
    by (simp add: preparar_s2)
  have h4: "dict_get (nodo_a_indice (snd (preparar_floyd_warshall sistema_ej))) ''node_0'' = Some 0"
    by (simp add: preparar_s2 dict_get_def)
  have h5: "dict_get (nodo_a_indice (snd (preparar_floyd_warshall sistema_ej))) ''node_1'' = Some (Suc 0)"
    by (simp add: preparar_s2 dict_get_def)
  have h6: "matriz_sucesores (snd (preparar_floyd_warshall sistema_ej)) ! 0 ! Suc 0 \<noteq> None"
    by (simp add: preparar_s2)
  show ?thesis by (rule successor_walk_terminates[OF h1 h2 h3 h4 h5 h6])
qed

lemma dict_set_fresh: "k \<notin> set (dict_keys d) \<Longrightarrow> dict_set k v d = d @ [(k, v)]"
  by (induction d) (auto simp: dict_keys_def)

lemma fold_enumerate_fresh:
  "distinct (dict_keys m0 @ xs) \<Longrightarrow>
   fold (\<lambda>(i, nodo) m. dict_set nodo i m) (enumerate k xs) m0 = m0 @ zip xs [k..<k + length xs]"
proof (induction xs arbitrary: k m0)
  case Nil
  then show ?case by simp
next
  case (Cons x xs)
  have fresh: "x \<notin> set (dict_keys m0)" using Cons.prems by auto
  have d: "distinct (dict_keys (m0 @ [(x, k)]) @ xs)"
    using Cons.prems by (auto simp: dict_keys_def)
  have "fold (\<lambda>(i, nodo) m. dict_set nodo i m) (enumerate k (x # xs)) m0 =
        fold (\<lambda>(i, nodo) m. dict_set nodo i m) (enumerate (Suc k) xs) (m0 @ [(x, k)])"
    by (simp add: dict_set_fresh[OF fresh])
  also have "\<dots> = (m0 @ [(x, k)]) @ zip xs [Suc k..<Suc k + length xs]"
    by (rule Cons.IH[OF d])
  also have "\<dots> = m0 @ zip (x # xs) [k..<k + length (x # xs)]"
  proof -
    have u: "[k..<Suc (k + length xs)] = k # [Suc k..<Suc (k + length xs)]"
      by (rule upt_conv_Cons) simp
    show ?thesis by (simp del: upt_Suc add: u)
  qed
  finally show ?case .
qed

lemma build_nodo_a_indice_distinct:
  "distinct ns \<Longrightarrow> build_nodo_a_indice ns = zip ns [0..<length ns]"
  using fold_enumerate_fresh[of "[]" ns 0] by (simp add: build_nodo_a_indice_def dict_keys_def)

lemma fold_swap_fresh:
  "distinct (dict_keys m0 @ map snd m) \<Longrightarrow>
   fold (\<lambda>(nodo, i) m'. dict_set i nodo m') m m0 = m0 @ map (\<lambda>(a, b). (b, a)) m"
proof (induction m arbitrary: m0)
  case Nil
  then show ?case by simp
next
  case (Cons p m)
  obtain a b where p: "p = (a, b)" by (cases p)
  have fresh: "b \<notin> set (dict_keys m0)" using Cons.prems by (auto simp: p)
  have d: "distinct (dict_keys (m0 @ [(b, a)]) @ map snd m)"
    using Cons.prems by (auto simp: dict_keys_def p)
  show ?case
    using Cons.IH[OF d] by (simp add: p dict_set_fresh[OF fresh])
qed

lemma build_indice_a_nodo_distinct:
  "distinct ns \<Longrightarrow> build_indice_a_nodo (build_nodo_a_indice ns) = zip [0..<length ns] ns"
proof -
  assume d: "distinct ns"
  have "map (\<lambda>(a, b). (b, a)) (zip ns [0..<length ns]) = zip [0..<length ns] ns"
    by (simp add: zip_commute[of "[0..<length ns]" ns] case_prod_unfold)
  moreover have "distinct (dict_keys [] @ map snd (zip ns [0..<length ns]))"
    by (simp add: dict_keys_def)
  ultimately show ?thesis
    using fold_swap_fresh[of "[]" "zip ns [0..<length ns]"]
    by (simp add: build_indice_a_nodo_def build_nodo_a_indice_distinct[OF d])
qed

lemma indice_char:
  assumes "distinct ns"
  shows "dict_get (build_nodo_a_indice ns) u = Some i \<longleftrightarrow> i < length ns \<and> ns ! i = u"
proof
  assume "dict_get (build_nodo_a_indice ns) u = Some i"
  then have "(u, i) \<in> set (zip ns [0..<length ns])"
    using dict_get_SomeD build_nodo_a_indice_distinct[OF assms] by metis
  then show "i < length ns \<and> ns ! i = u"
    by (auto simp: in_set_zip)
next
  assume a: "i < length ns \<and> ns ! i = u"
  have "map_of (zip ns [0..<length ns]) (ns ! i) = Some ([0..<length ns] ! i)"
    using assms a by (intro map_of_zip_nth) auto
  then show "dict_get (build_nodo_a_indice ns) u = Some i"
    using a by (simp add: dict_get_def build_nodo_a_indice_distinct[OF assms])
qed

lemma nodo_de_indice:
  assumes "distinct ns" "i < length ns"
  shows "dict_at (build_indice_a_nodo (build_nodo_a_indice ns)) i = Inr (ns ! i)"
proof -
  have "map_of (zip [0..<length ns] ns) ([0..<length ns] ! i) = Some (ns ! i)"
    using assms by (intro map_of_zip_nth) auto
  then show ?thesis
    using assms by (simp add: dict_at_def dict_get_def build_indice_a_nodo_distinct)
qed

lemma preparar_fields:
  assumes "red_vial s = Some g" "preparar_floyd_warshall s = (ok, s')"
  shows "ok" "fw_preparado s'" "red_vial s' = Some g"
    "nodo_a_indice s' = build_nodo_a_indice (dict_keys (nodos g))"
    "indice_a_nodo s' = build_indice_a_nodo (build_nodo_a_indice (dict_keys (nodos g)))"
    "matriz_distancias s' = fst (floyd_warshall (length (dict_keys (nodos g))) (loaded g))"
    "matriz_sucesores s' = snd (floyd_warshall (length (dict_keys (nodos g))) (loaded g))"
  using assms by (auto simp: preparar_loaded[OF assms(1)])

lemma map_err_ok: "(\<And>x. x \<in> set xs \<Longrightarrow> f x = Inr (h x)) \<Longrightarrow> map_err f xs = Inr (map h xs)"
  by (induction xs) auto

lemma map_err_map: "map_err f (map h xs) = map_err (f \<circ> h) xs"
  by (induction xs) (auto split: sum.splits)

lemma pasos_ok_lt: "pasos_ok n p \<Longrightarrow> x \<in> set p \<Longrightarrow> x < n"
  by (induction n p rule: pasos_ok.induct) auto

lemma dict_at_nth:
  assumes "distinct (dict_keys d)" "i < length d"
  shows "dict_at d (dict_keys d ! i) = Inr (snd (d ! i))"
proof -
  have "(fst (d ! i), snd (d ! i)) \<in> set d" using assms(2) by simp
  then have "map_of d (fst (d ! i)) = Some (snd (d ! i))"
    using assms(1) by (simp add: dict_keys_def)
  then show ?thesis using assms(2) by (simp add: dict_at_def dict_get_def dict_keys_def)
qed

lemma armar_ruta_ok:
  assumes "red_vial s = Some g" "preparar_floyd_warshall s = (ok, s')"
    and d: "distinct (dict_keys (nodos g))"
    and p: "pasos_ok (length (dict_keys (nodos g))) p"
    and ij: "i < length (dict_keys (nodos g))" "j < length (dict_keys (nodos g))"
    and b: "base_inv (length (dict_keys (nodos g))) (floyd_warshall (length (dict_keys (nodos g))) (loaded g))"
  shows "armar_ruta s' i j p =
     Inr \<lparr>ruta_nodos = map (\<lambda>x. dict_keys (nodos g) ! x) p,
          coordenadas = map (\<lambda>(lat, lon). (lon, lat)) (map (\<lambda>x. snd (nodos g ! x)) p),
          distancia_km = matriz_distancias s' ! i ! j,
          tiempo_min = tiempo_de (matriz_distancias s' ! i ! j)\<rparr>"
proof -
  let ?ns = "dict_keys (nodos g)"
  note f = preparar_fields[OF assms(1,2)]
  have lt: "\<And>x. x \<in> set p \<Longrightarrow> x < length ?ns" using p pasos_ok_lt by blast
  have 1: "map_err (dict_at (indice_a_nodo s')) p = Inr (map (\<lambda>x. ?ns ! x) p)"
    unfolding f(5) using lt by (intro map_err_ok nodo_de_indice[OF d])
  have 2: "map_err (nodo_coord s') (map (\<lambda>x. ?ns ! x) p) = Inr (map (\<lambda>x. snd (nodos g ! x)) p)"
  proof -
    have "nodo_coord s' (?ns ! x) = Inr (snd (nodos g ! x))" if "x \<in> set p" for x
      using dict_at_nth[OF d, of x] lt[OF that] by (simp add: nodo_coord_def f(3) dict_keys_def)
    then have "map_err (nodo_coord s' \<circ> (\<lambda>x. ?ns ! x)) p = Inr (map (\<lambda>x. snd (nodos g ! x)) p)"
      by (intro map_err_ok) simp
    then show ?thesis by (simp add: map_err_map)
  qed
  have 3: "lookup2 (matriz_distancias s') i j = Inr (matriz_distancias s' ! i ! j)"
    unfolding f(6) using base_inv_wf[OF b] ij by (intro lookup2_wf[of "length ?ns"]) auto
  show ?thesis by (simp add: armar_ruta_def bind_err_def 1 2 3)
qed

lemma obtener_ruta_found:
  assumes r: "red_vial s = Some g" and pr: "preparar_floyd_warshall s = (ok, s')"
    and d: "distinct (dict_keys (nodos g))" and pos: "pesos_positivos g"
    and u: "dict_get (nodo_a_indice s') u = Some i" and v: "dict_get (nodo_a_indice s') v = Some j"
    and ne: "matriz_sucesores s' ! i ! j \<noteq> None"
  shows "\<exists>p. pasos_ok (length (dict_keys (nodos g))) (i # p) \<and> last (i # p) = j \<and>
     largo_idx (fst (loaded g)) (i # p) = matriz_distancias s' ! i ! j \<and>
     matriz_distancias s' ! i ! j \<noteq> PInf \<and>
     obtener_ruta s' u v = Some (Inr (Some
       \<lparr>ruta_nodos = map (\<lambda>x. dict_keys (nodos g) ! x) (i # p),
        coordenadas = map (\<lambda>(lat, lon). (lon, lat)) (map (\<lambda>x. snd (nodos g ! x)) (i # p)),
        distancia_km = matriz_distancias s' ! i ! j,
        tiempo_min = tiempo_de (matriz_distancias s' ! i ! j)\<rparr>))"
proof -
  let ?n = "length (dict_keys (nodos g))"
  let ?st = "floyd_warshall ?n (loaded g)"
  note f = preparar_fields[OF r pr]
  have ij: "i < ?n" "j < ?n" using u v indice_range unfolding f(4) by blast+
  have li: "load_inv ?n (loaded g)" using pos by (rule loaded_load_inv)
  have inv: "fw_inv ?n (fst (loaded g)) ?n ?st" using pos by (rule prepared_inv)
  have b: "base_inv ?n ?st" using inv by (rule fw_inv_base)
  have fin: "fst ?st ! i ! j \<noteq> PInf"
    using fw_inv_inf[OF inv ij] ne unfolding f(7) by blast
  from walk_reaches[OF li inv ij(2) ij(1) fin, of "[i]"]
  obtain p where p: "seguir_sucesores (snd ?st) j i [i] = Some (Inr (Some ([i] @ p)))"
    "last (i # p) = j" "pasos_ok ?n (i # p)" "largo_idx (fst (loaded g)) (i # p) = fst ?st ! i ! j"
    by blast
  have lk: "lookup2 (matriz_sucesores s') i j = Inr (matriz_sucesores s' ! i ! j)"
    unfolding f(7) using base_inv_wf[OF b] ij by (intro lookup2_wf[of ?n]) auto
  obtain t where t: "matriz_sucesores s' ! i ! j = Some t" using ne by blast
  have w: "seguir_sucesores (matriz_sucesores s') j i [i] = Some (Inr (Some (i # p)))"
    using p(1) unfolding f(7) by simp
  have "obtener_ruta s' u v = Some (Inr (Some
       \<lparr>ruta_nodos = map (\<lambda>x. dict_keys (nodos g) ! x) (i # p),
        coordenadas = map (\<lambda>(lat, lon). (lon, lat)) (map (\<lambda>x. snd (nodos g ! x)) (i # p)),
        distancia_km = matriz_distancias s' ! i ! j,
        tiempo_min = tiempo_de (matriz_distancias s' ! i ! j)\<rparr>))"
    unfolding obtener_ruta_def
    by (simp only: f(2) u v lk t w armar_ruta_ok[OF r pr d p(3) ij b]
        not_True_eq_False if_False option.case prod.case sum.case)
  then show ?thesis using p(2,3,4) fin unfolding f(6) by blast
qed

lemma obtener_ruta_none:
  assumes r: "red_vial s = Some g" and pr: "preparar_floyd_warshall s = (ok, s')"
    and u: "dict_get (nodo_a_indice s') u = Some i" and v: "dict_get (nodo_a_indice s') v = Some j"
    and ne: "matriz_sucesores s' ! i ! j = None"
    and pos: "\<forall>(u, v, w) \<in> set (aristas g). 0 \<le> w"
  shows "obtener_ruta s' u v = Some (Inr None)"
proof -
  let ?n = "length (dict_keys (nodos g))"
  let ?st = "floyd_warshall ?n (loaded g)"
  note f = preparar_fields[OF r pr]
  have ij: "i < ?n" "j < ?n" using u v indice_range unfolding f(4) by blast+
  have b: "base_inv ?n ?st" using loaded_base[OF pos] by (rule floyd_warshall_base)
  have lk: "lookup2 (matriz_sucesores s') i j = Inr (matriz_sucesores s' ! i ! j)"
    unfolding f(7) using base_inv_wf[OF b] ij by (intro lookup2_wf[of ?n]) auto
  show ?thesis
    unfolding obtener_ruta_def
    by (simp only: f(2) u v lk ne not_True_eq_False if_False option.case prod.case sum.case)
qed

text \<open>
  Claim C8.  A route query on a system that is not prepared returns not-found.  On a
  system that has just been prepared from a graph with distinct node ids and positive
  edge weights the query always returns without raising, and what it returns is
  not-found exactly when the origin is unknown to the index mapping, or the destination
  is, or the successor entry from origin to destination is \<open>None\<close>.
\<close>

theorem route_not_found_iff:
  assumes "red_vial s = Some g" and "distinct (dict_keys (nodos g))" and "pesos_positivos g"
    and "preparar_floyd_warshall s = (ok, s')"
  shows "(\<exists>res. obtener_ruta s' u v = Some (Inr res) \<and>
            (res = None \<longleftrightarrow>
               \<not> fw_preparado s' \<or> dict_get (nodo_a_indice s') u = None \<or>
               dict_get (nodo_a_indice s') v = None \<or>
               (\<exists>i j. dict_get (nodo_a_indice s') u = Some i \<and>
                      dict_get (nodo_a_indice s') v = Some j \<and>
                      matriz_sucesores s' ! i ! j = None))) \<and>
         (\<forall>t a b. \<not> fw_preparado t \<longrightarrow> obtener_ruta t a b = Some (Inr None))"
proof -
  note f = preparar_fields[OF assms(1,4)]
  have nn: "\<forall>(u, v, w) \<in> set (aristas g). 0 \<le> w"
    using assms(3) by (auto simp: pesos_positivos_def)
  have unprepared: "\<forall>t a b. \<not> fw_preparado t \<longrightarrow> obtener_ruta t a b = Some (Inr None)"
    by (simp add: obtener_ruta_def)
  have "\<exists>res. obtener_ruta s' u v = Some (Inr res) \<and>
            (res = None \<longleftrightarrow>
               \<not> fw_preparado s' \<or> dict_get (nodo_a_indice s') u = None \<or>
               dict_get (nodo_a_indice s') v = None \<or>
               (\<exists>i j. dict_get (nodo_a_indice s') u = Some i \<and>
                      dict_get (nodo_a_indice s') v = Some j \<and>
                      matriz_sucesores s' ! i ! j = None))"
  proof (cases "dict_get (nodo_a_indice s') u")
    case None
    then have "obtener_ruta s' u v = Some (Inr None)" by (simp add: obtener_ruta_def)
    then show ?thesis using None by simp
  next
    case (Some i)
    note u = this
    show ?thesis
    proof (cases "dict_get (nodo_a_indice s') v")
      case None
      then have "obtener_ruta s' u v = Some (Inr None)" by (simp add: obtener_ruta_def u)
      then show ?thesis using None by simp
    next
      case (Some j)
      note v = this
      show ?thesis
      proof (cases "matriz_sucesores s' ! i ! j")
        case None
        have "obtener_ruta s' u v = Some (Inr None)"
          by (rule obtener_ruta_none[OF assms(1,4) u v None nn])
        then show ?thesis using u v None by simp
      next
        case (Some t)
        then have ne: "matriz_sucesores s' ! i ! j \<noteq> None" by simp
        from obtener_ruta_found[OF assms(1,4,2,3) u v ne]
        obtain x where "obtener_ruta s' u v = Some (Inr (Some x))" by blast
        then show ?thesis using u v Some f(2) by simp
      qed
    qed
  qed
  then show ?thesis using unprepared by blast
qed

theorem route_not_found_iff_witness:
  "obtener_ruta (snd (preparar_floyd_warshall sistema_ej)) ''node_1'' ''node_0'' = Some (Inr None) \<and>
   (\<exists>x. obtener_ruta (snd (preparar_floyd_warshall sistema_ej)) ''node_0'' ''node_1'' = Some (Inr (Some x))) \<and>
   obtener_ruta sistema_ej ''node_0'' ''node_1'' = Some (Inr None)"
proof -
  let ?s' = "snd (preparar_floyd_warshall sistema_ej)"
  have h1: "red_vial sistema_ej = Some grafo_ej" by (simp add: sistema_ej_def)
  have h2: "distinct (dict_keys (nodos grafo_ej))" by (simp add: grafo_ej_def dict_keys_def)
  have h3: "pesos_positivos grafo_ej" by (simp add: pesos_positivos_def grafo_ej_def)
  have h4: "preparar_floyd_warshall sistema_ej = (True, ?s')" by (simp add: preparar_s2)
  have e1: "dict_get (nodo_a_indice ?s') ''node_1'' = Some (Suc 0)"
    "dict_get (nodo_a_indice ?s') ''node_0'' = Some 0"
    "matriz_sucesores ?s' ! Suc 0 ! 0 = None" "matriz_sucesores ?s' ! 0 ! Suc 0 \<noteq> None"
    "fw_preparado ?s'"
    by (simp_all add: preparar_s2 dict_get_def)
  have e6: "\<not> fw_preparado sistema_ej" by (simp add: sistema_ej_def sistema_inicial_def)
  have a: "obtener_ruta ?s' ''node_1'' ''node_0'' = Some (Inr None)"
    using route_not_found_iff[OF h1 h2 h3 h4, of "''node_1''" "''node_0''"] e1 by auto
  have b: "\<exists>x. obtener_ruta ?s' ''node_0'' ''node_1'' = Some (Inr (Some x))"
    using route_not_found_iff[OF h1 h2 h3 h4, of "''node_0''" "''node_1''"] e1 by auto
  have c: "obtener_ruta sistema_ej ''node_0'' ''node_1'' = Some (Inr None)"
    using route_not_found_iff[OF h1 h2 h3 h4, of "''node_0''" "''node_1''"] e6 by blast
  show ?thesis using a b c by blast
qed

lemma pf_min_Fin: "min (Fin a) (Fin b) = Fin (min a b)"
  by (simp add: min_def)

lemma pf_min_PInf: "min x PInf = x" "min PInf x = x"
  by (cases x; simp add: min_def)+

lemma peso_min_edge:
  "peso_min es x y \<noteq> PInf \<Longrightarrow>
   \<exists>w. peso_min es x y = Fin w \<and> (x, y, w) \<in> set es \<and> (\<forall>w'. (x, y, w') \<in> set es \<longrightarrow> w \<le> w')"
proof (induction es x y rule: peso_min.induct)
  case (1 u v)
  then show ?case by simp
next
  case (2 a b w es u v)
  show ?case
  proof (cases "peso_min es u v")
    case PInf
    then have none: "\<forall>w'. (u, v, w') \<notin> set es"
    proof (induction es u v rule: peso_min.induct)
      case (2 a b w es u v)
      then show ?case by (cases "peso_min es u v") (auto simp: min_def split: if_splits)
    qed simp
    show ?thesis using "2.prems" PInf none by (auto simp: pf_min_PInf split: if_splits)
  next
    case (Fin m)
    with "2.IH" obtain w0 where "peso_min es u v = Fin w0" "(u, v, w0) \<in> set es"
      "\<forall>w'. (u, v, w') \<in> set es \<longrightarrow> w0 \<le> w'" by auto
    then show ?thesis by (auto simp: pf_min_Fin min_def)
  qed
qed

lemma load_arista_entry:
  assumes "wf_mat n (fst st)" "idx_ok n idx" "a < n" "b < n"
  shows "fst (load_arista idx (u, v, w) st) ! a ! b =
     (if dict_get idx u = Some a \<and> dict_get idx v = Some b then min (Fin w) (fst st ! a ! b)
      else fst st ! a ! b)"
proof -
  obtain D S where st: "st = (D, S)" by (cases st)
  show ?thesis
  proof (cases "\<exists>i j. dict_get idx u = Some i \<and> dict_get idx v = Some j")
    case False
    then show ?thesis by (auto simp: load_arista_def st split: option.splits)
  next
    case True
    then obtain i j where ij: "dict_get idx u = Some i" "dict_get idx v = Some j" by blast
    then have lt: "i < n" "j < n" using assms(2) by (auto simp: idx_ok_def)
    show ?thesis
      using assms(1,3,4) lt ij by (auto simp: load_arista_def st mset2_nth min_def)
  qed
qed

lemma load_aristas_entry:
  assumes "wf_mat n (fst st)" "idx_ok n idx" "a < n" "b < n"
    and "\<And>u. dict_get idx u = Some a \<longleftrightarrow> u = na" and "\<And>u. dict_get idx u = Some b \<longleftrightarrow> u = nb"
  shows "fst (load_aristas idx es st) ! a ! b = min (peso_min es na nb) (fst st ! a ! b)"
  using assms(1)
proof (induction es arbitrary: st)
  case Nil
  then show ?case by (simp add: load_aristas_def pf_min_PInf)
next
  case (Cons e es)
  obtain u v w where e: "e = (u, v, w)" by (cases e)
  have wf: "wf_mat n (fst (load_arista idx e st))" using Cons.prems by (rule load_arista_wf)
  have "fst (load_aristas idx (e # es) st) ! a ! b =
        min (peso_min es na nb) (fst (load_arista idx e st) ! a ! b)"
    using Cons.IH[OF wf] by (simp add: load_aristas_def)
  also have "\<dots> = min (peso_min (e # es) na nb) (fst st ! a ! b)"
    unfolding e load_arista_entry[OF Cons.prems assms(2,3,4)] assms(5,6)
    by (simp add: min.assoc min.left_commute)
  finally show ?case .
qed

lemma loaded_entry:
  assumes d: "distinct (dict_keys (nodos g))"
    and ab: "a < length (dict_keys (nodos g))" "b < length (dict_keys (nodos g))" "a \<noteq> b"
  shows "fst (loaded g) ! a ! b = peso_min (aristas g) (dict_keys (nodos g) ! a) (dict_keys (nodos g) ! b)"
proof -
  let ?ns = "dict_keys (nodos g)"
  let ?n = "length ?ns"
  obtain D S where st: "init_matrices ?n = (D, S)" by (cases "init_matrices ?n")
  have c: "wf_mat ?n D" "D ! a ! b = PInf"
    using init_matrices_char[of ?n] ab by (simp_all add: st)
  have ia: "\<And>u. dict_get (build_nodo_a_indice ?ns) u = Some a \<longleftrightarrow> u = ?ns ! a"
    using indice_char[OF d] ab(1) by auto
  have ib: "\<And>u. dict_get (build_nodo_a_indice ?ns) u = Some b \<longleftrightarrow> u = ?ns ! b"
    using indice_char[OF d] ab(2) by auto
  have "wf_mat ?n (fst (init_matrices ?n))" using c(1) by (simp add: st)
  from load_aristas_entry[OF this idx_ok_build ab(1,2) ia ib, of "aristas g"]
  show ?thesis using c(2) by (simp add: loaded_def st pf_min_PInf)
qed

lemma largo_ruta_idx:
  assumes d: "distinct (dict_keys (nodos g))"
  shows "pasos_ok (length (dict_keys (nodos g))) p \<Longrightarrow>
     largo_ruta (aristas g) (map (\<lambda>x. dict_keys (nodos g) ! x) p) = largo_idx (fst (loaded g)) p"
proof (induction "length (dict_keys (nodos g))" p rule: pasos_ok.induct)
  case (1 x y r)
  have y: "y < length (dict_keys (nodos g))" using "1.prems" pasos_ok_lt[of _ "y # r" y] by simp
  have "fst (loaded g) ! x ! y = peso_min (aristas g) (dict_keys (nodos g) ! x) (dict_keys (nodos g) ! y)"
    using "1.prems" y by (intro loaded_entry[OF d]) auto
  then show ?case using 1 by simp
qed simp_all

lemma largo_ruta_hops:
  "largo_ruta es p \<noteq> PInf \<Longrightarrow> Suc m < length p \<Longrightarrow> peso_min es (p ! m) (p ! Suc m) \<noteq> PInf"
proof (induction es p arbitrary: m rule: largo_ruta.induct)
  case (1 es x y r)
  from "1.prems"(1) have a: "peso_min es x y \<noteq> PInf" "largo_ruta es (y # r) \<noteq> PInf"
    using pf_add_not_PInf[of "peso_min es x y" "largo_ruta es (y # r)"] by auto
  show ?case
  proof (cases m)
    case 0
    then show ?thesis using a by simp
  next
    case (Suc m')
    then show ?thesis using "1.IH"[OF a(2), of m'] "1.prems"(2) by simp
  qed
qed simp_all

text \<open>
  Claim C2.  After a successful preparation of a graph with distinct node ids and
  positive edge weights, whenever the route query for known node ids \<open>u\<close> and \<open>v\<close>
  returns a route, its node sequence starts at \<open>u\<close>, ends at \<open>v\<close>, every two
  consecutive nodes are joined by an edge of the prepared graph, and the sum of the
  least edge weights of the hops is the returned distance, which is the finite
  distance-matrix entry for \<open>(u, v)\<close>.
\<close>

theorem route_length_matches:
  assumes "red_vial s = Some g" and "distinct (dict_keys (nodos g))" and "pesos_positivos g"
    and "preparar_floyd_warshall s = (ok, s')"
    and "dict_get (nodo_a_indice s') u = Some i" and "dict_get (nodo_a_indice s') v = Some j"
    and "obtener_ruta s' u v = Some (Inr (Some x))"
  shows "ruta_nodos x \<noteq> [] \<and> hd (ruta_nodos x) = u \<and> last (ruta_nodos x) = v \<and>
     (\<forall>m. Suc m < length (ruta_nodos x) \<longrightarrow>
        (\<exists>w. (ruta_nodos x ! m, ruta_nodos x ! Suc m, w) \<in> set (aristas g))) \<and>
     largo_ruta (aristas g) (ruta_nodos x) = distancia_km x \<and>
     distancia_km x = matriz_distancias s' ! i ! j \<and> distancia_km x \<noteq> PInf"
proof -
  let ?ns = "dict_keys (nodos g)"
  note f = preparar_fields[OF assms(1,4)]
  have nn: "\<forall>(u, v, w) \<in> set (aristas g). 0 \<le> w"
    using assms(3) by (auto simp: pesos_positivos_def)
  have ne: "matriz_sucesores s' ! i ! j \<noteq> None"
  proof
    assume "matriz_sucesores s' ! i ! j = None"
    from obtener_ruta_none[OF assms(1,4,5,6) this nn] assms(7) show False by simp
  qed
  from obtener_ruta_found[OF assms(1,4,2,3,5,6) ne] assms(7)
  obtain p where p: "pasos_ok (length ?ns) (i # p)" "last (i # p) = j"
    "largo_idx (fst (loaded g)) (i # p) = matriz_distancias s' ! i ! j"
    "matriz_distancias s' ! i ! j \<noteq> PInf"
    and x: "x = \<lparr>ruta_nodos = map (\<lambda>x. ?ns ! x) (i # p),
        coordenadas = map (\<lambda>(lat, lon). (lon, lat)) (map (\<lambda>x. snd (nodos g ! x)) (i # p)),
        distancia_km = matriz_distancias s' ! i ! j,
        tiempo_min = tiempo_de (matriz_distancias s' ! i ! j)\<rparr>"
    by auto
  have rn: "ruta_nodos x = map (\<lambda>x. ?ns ! x) (i # p)" and dk: "distancia_km x = matriz_distancias s' ! i ! j"
    by (simp_all add: x)
  have ui: "?ns ! i = u" and vj: "?ns ! j = v"
    using assms(5,6) indice_char[OF assms(2)] unfolding f(4) by blast+
  have 1: "ruta_nodos x \<noteq> []" "hd (ruta_nodos x) = u" by (simp_all add: rn ui)
  have 2: "last (ruta_nodos x) = v"
  proof -
    have "last (map (\<lambda>x. ?ns ! x) (i # p)) = ?ns ! last (i # p)"
      by (rule last_map) simp
    then show ?thesis unfolding rn using p(2) vj by simp
  qed
  have 3: "largo_ruta (aristas g) (ruta_nodos x) = distancia_km x"
    unfolding rn dk using largo_ruta_idx[OF assms(2) p(1)] p(3) by simp
  have 4: "\<exists>w. (ruta_nodos x ! m, ruta_nodos x ! Suc m, w) \<in> set (aristas g)"
    if "Suc m < length (ruta_nodos x)" for m
  proof -
    have "largo_ruta (aristas g) (ruta_nodos x) \<noteq> PInf" using 3 dk p(4) by simp
    from largo_ruta_hops[OF this that] peso_min_edge show ?thesis by blast
  qed
  show ?thesis using 1 2 3 4 dk p(4) by simp
qed

theorem route_length_matches_witness:
  "\<exists>x. obtener_ruta (snd (preparar_floyd_warshall sistema_ej)) ''node_0'' ''node_1'' = Some (Inr (Some x)) \<and>
     ruta_nodos x = [''node_0'', ''node_1''] \<and>
     largo_ruta (aristas grafo_ej) (ruta_nodos x) = distancia_km x \<and>
     distancia_km x = matriz_distancias (snd (preparar_floyd_warshall sistema_ej)) ! 0 ! Suc 0 \<and>
     distancia_km x = Fin 1"
proof -
  let ?s' = "snd (preparar_floyd_warshall sistema_ej)"
  have h1: "red_vial sistema_ej = Some grafo_ej" by (simp add: sistema_ej_def)
  have h2: "distinct (dict_keys (nodos grafo_ej))" by (simp add: grafo_ej_def dict_keys_def)
  have h3: "pesos_positivos grafo_ej" by (simp add: pesos_positivos_def grafo_ej_def)
  have h4: "preparar_floyd_warshall sistema_ej = (True, ?s')" by (simp add: preparar_s2)
  have h5: "dict_get (nodo_a_indice ?s') ''node_0'' = Some 0"
    and h6: "dict_get (nodo_a_indice ?s') ''node_1'' = Some (Suc 0)"
    by (simp_all add: preparar_s2 dict_get_def)
  have h7: "obtener_ruta ?s' ''node_0'' ''node_1'' = Some (Inr (Some
      \<lparr>ruta_nodos = [''node_0'', ''node_1''], coordenadas = [(0, 0), (1, 0)],
       distancia_km = Fin 1, tiempo_min = Fin (12 / 5)\<rparr>))"
    unfolding preparar_s2
    by (simp add: sistema_ej_def sistema_inicial_def grafo_ej_def obtener_ruta_def dict_get_def lookup2_def
        seguir_sucesores.simps armar_ruta_def bind_err_def dict_at_def nodo_coord_def)
  show ?thesis
    using route_length_matches[OF h1 h2 h3 h4 h5 h6 h7] h7 by simp
qed

























lemma lit_0_01_bounds: "1 / 100 \<le> lit_0_01" "lit_0_01 \<le> 1 / 2"
  by (simp_all add: lit_0_01_def)

lemma pesos_desde_001_append:
  "pesos_desde_001 (xs @ ys) \<longleftrightarrow> pesos_desde_001 xs \<and> pesos_desde_001 ys"
  by (simp add: pesos_desde_001_def ball_Un)

lemma pesos_desde_001_Nil: "pesos_desde_001 []"
  by (simp add: pesos_desde_001_def)

lemma fold_err_invariant:
  assumes "fold_err f xs s = Inr s'" and "P s"
    and "\<And>x t t'. x \<in> set xs \<Longrightarrow> P t \<Longrightarrow> f x t = Inr t' \<Longrightarrow> P t'"
  shows "P s'"
  using assms
proof (induction xs arbitrary: s)
  case Nil
  then show ?case by simp
next
  case (Cons x xs)
  from Cons.prems(1) obtain t where t: "f x s = Inr t" "fold_err f xs t = Inr s'"
    by (cases "f x s") auto
  have pt: "P t" using Cons.prems(3)[of x s t] Cons.prems(2) t(1) by simp
  show ?case
  proof (rule Cons.IH[OF t(2) pt])
    fix y u u' assume "y \<in> set xs" "P u" "f y u = Inr u'"
    then show "P u'" using Cons.prems(3)[of y u u'] by simp
  qed
qed

lemma paso_arista_pesos:
  assumes "paso_arista fl nds dir_mode way_nodes i ars = Inr ars'"
  shows "\<exists>nuevas. ars' = ars @ nuevas \<and> pesos_desde_001 nuevas"
proof (cases "way_nodes ! i = way_nodes ! (i + 1)")
  case True
  then have "ars' = ars @ []" using assms by (simp add: paso_arista_def Let_def)
  then show ?thesis using pesos_desde_001_Nil by blast
next
  case False
  let ?n1 = "way_nodes ! i" and ?n2 = "way_nodes ! (i + 1)"
  show ?thesis
  proof (cases "dict_at nds ?n1")
    case (Inl e)
    then show ?thesis using assms False by (simp add: paso_arista_def Let_def)
  next
    case c1: (Inr c1)
    show ?thesis
    proof (cases "dict_at nds ?n2")
      case (Inl e)
      then show ?thesis using assms False c1 by (simp add: paso_arista_def Let_def)
    next
      case c2: (Inr c2)
      show ?thesis
      proof (cases "haversine_km fl c1 c2")
        case (Inl e)
        then show ?thesis using assms False c1 c2 by (simp add: paso_arista_def Let_def)
      next
        case (Inr h)
        let ?d = "max h lit_0_01"
        let ?e1 = "if dir_mode \<in> {''both'', ''forward''} then [(?n1, ?n2, ?d)] else []"
        let ?e2 = "if dir_mode \<in> {''both'', ''backward''} then [(?n2, ?n1, ?d)] else []"
        have "paso_arista fl nds dir_mode way_nodes i ars = Inr (ars @ (?e1 @ ?e2))"
          using False c1 c2 Inr by (simp add: paso_arista_def Let_def)
        then have "ars' = ars @ (?e1 @ ?e2)" using assms by simp
        moreover have "pesos_desde_001 ?e1" "pesos_desde_001 ?e2"
          by (simp_all add: pesos_desde_001_def)
        ultimately show ?thesis using pesos_desde_001_append by blast
      qed
    qed
  qed
qed

lemma aristas_loop_pesos:
  assumes "fold_err (paso_arista fl nds dir_mode way_nodes) is ars = Inr ars'"
  shows "\<exists>nuevas. ars' = ars @ nuevas \<and> pesos_desde_001 nuevas"
proof -
  have "\<exists>nuevas. ars = ars @ nuevas \<and> pesos_desde_001 nuevas"
    using pesos_desde_001_Nil by (intro exI[of _ "[]"]) simp
  with assms show ?thesis
  proof (rule fold_err_invariant)
    fix x t t'
    assume a1: "\<exists>nuevas. t = ars @ nuevas \<and> pesos_desde_001 nuevas"
      and a2: "paso_arista fl nds dir_mode way_nodes x t = Inr t'"
    from a1 obtain n1 where n1: "t = ars @ n1" "pesos_desde_001 n1" by blast
    from paso_arista_pesos[OF a2] obtain n2 where n2: "t' = t @ n2" "pesos_desde_001 n2" by blast
    from n1 n2 have "t' = ars @ (n1 @ n2) \<and> pesos_desde_001 (n1 @ n2)"
      by (simp add: pesos_desde_001_append)
    then show "\<exists>nuevas. t' = ars @ nuevas \<and> pesos_desde_001 nuevas" by blast
  qed
qed

lemma paso_elemento_pesos:
  assumes "paso_elemento fl fmt st el (c, ars) = Inr (c', ars')"
  shows "\<exists>nuevas. ars' = ars @ nuevas \<and> pesos_desde_001 nuevas"
proof (cases "es_way el")
  case False
  then have "ars' = ars @ []" using assms by (simp add: paso_elemento_def)
  then show ?thesis using pesos_desde_001_Nil by blast
next
  case True
  let ?p = "fold_err (paso_punto fmt st (length (the (geometry el)))) (enumerate 0 (the (geometry el))) (c, [])"
  show ?thesis
  proof (cases ?p)
    case (Inl e)
    then show ?thesis using assms True by (simp add: paso_elemento_def Let_def)
  next
    case (Inr r)
    obtain c2i nds cnt way_nodes where r: "r = ((c2i, nds, cnt), way_nodes)"
      by (cases r) auto
    let ?a = "fold_err (paso_arista fl nds (dir_mode_de el) way_nodes) [0..<length way_nodes - 1] ars"
    show ?thesis
    proof (cases ?a)
      case (Inl e)
      then show ?thesis using assms True Inr r by (simp add: paso_elemento_def Let_def)
    next
      case ar: (Inr x)
      then have "x = ars'" using assms True Inr r by (simp add: paso_elemento_def Let_def)
      then have "?a = Inr ars'" using ar by simp
      then show ?thesis by (rule aristas_loop_pesos)
    qed
  qed
qed

lemma procesar_pesos:
  assumes "procesar_red_osm fl fmt elements = Inr g"
  shows "pesos_desde_001 (aristas g)"
proof -
  let ?st = "downsample_step_de fl (total_points elements)"
  let ?f = "fold_err (paso_elemento fl fmt ?st) elements (([], [], 0), [])"
  have "\<exists>c. ?f = Inr (c, aristas g)"
  proof (cases ?f)
    case (Inl e)
    then show ?thesis using assms by (simp add: procesar_red_osm_def Let_def)
  next
    case (Inr r)
    obtain c2i nds cnt ars where r: "r = ((c2i, nds, cnt), ars)" by (cases r) auto
    have "g = \<lparr>nodos = nds, aristas = ars\<rparr>"
      using assms Inr r by (simp add: procesar_red_osm_def Let_def)
    then show ?thesis using Inr r by simp
  qed
  then obtain c where f: "?f = Inr (c, aristas g)" ..
  have "pesos_desde_001 (snd (c, aristas g))"
    using f
  proof (rule fold_err_invariant[where P = "\<lambda>t. pesos_desde_001 (snd t)"])
    show "pesos_desde_001 (snd (([], [], 0), []))" by (simp add: pesos_desde_001_Nil)
  next
    fix x t t'
    assume a: "pesos_desde_001 (snd t)" "paso_elemento fl fmt ?st x t = Inr t'"
    obtain c1 ars1 where t: "t = (c1, ars1)" by (cases t)
    obtain c2 ars2 where t': "t' = (c2, ars2)" by (cases t')
    from paso_elemento_pesos[of fl fmt ?st x c1 ars1 c2 ars2] a(2)
    obtain nuevas where "ars2 = ars1 @ nuevas" "pesos_desde_001 nuevas" by (auto simp: t t')
    then show "pesos_desde_001 (snd t')" using a(1) by (simp add: t t' pesos_desde_001_append)
  qed
  then show ?thesis by simp
qed

lemma split_char:
  assumes "split_edge_and_connect_point fl s p prefix = Inr (r, s')"
  shows "(nearest_edge_projection fl s p = Inr None \<and> r = (None, None) \<and> s' = s) \<or>
   (\<exists>g u v t q_lat q_lon d nuevas h.
       red_vial s = Some g \<and>
       nearest_edge_projection fl s p = Inr (Some (u, v, t, q_lat, q_lon, d)) \<and>
       haversine_km fl p (q_lat, q_lon) = Inr h \<and>
       r = (Some (prefix @ ''_'' @ str_nat (length (nodos g))), Some (max h lit_0_01)) \<and>
       s' = s\<lparr>red_vial := Some
              \<lparr>nodos = dict_set (prefix @ ''_'' @ str_nat (length (nodos g))) (q_lat, q_lon) (nodos g),
               aristas = aristas g @ nuevas\<rparr>\<rparr> \<and>
       pesos_desde_001 nuevas \<and> length nuevas \<le> 4)"
proof (cases "nearest_edge_projection fl s p")
  case (Inl e)
  then show ?thesis using assms by (simp add: split_edge_and_connect_point_def)
next
  case (Inr best)
  show ?thesis
  proof (cases best)
    case None
    then show ?thesis using assms Inr by (simp add: split_edge_and_connect_point_def)
  next
    case (Some x)
    obtain u v t q_lat q_lon d where x: "x = (u, v, t, q_lat, q_lon, d)" by (cases x) auto
    note pr = Inr[unfolded Some x]
    show ?thesis
    proof (cases "red_vial s")
      case None
      then show ?thesis using assms pr by (simp add: split_edge_and_connect_point_def)
    next
      case g: (Some g)
      define new_id where "new_id = prefix @ ''_'' @ str_nat (length (nodos g))"
      define nds where "nds = dict_set new_id (q_lat, q_lon) (nodos g)"
      define dir_set where "dir_set = set (map (\<lambda>(a, b, w). (a, b)) (aristas g))"
      have unf: "split_edge_and_connect_point fl s p prefix =
        (case dict_at nds u of
           Inl e \<Rightarrow> Inl e
         | Inr cu \<Rightarrow>
             (case haversine_km fl cu (q_lat, q_lon) of
                Inl e \<Rightarrow> Inl e
              | Inr d_uq \<Rightarrow>
                  (case dict_at nds v of
                     Inl e \<Rightarrow> Inl e
                   | Inr cv \<Rightarrow>
                       (case haversine_km fl (q_lat, q_lon) cv of
                          Inl e \<Rightarrow> Inl e
                        | Inr d_qv \<Rightarrow>
                            (case haversine_km fl p (q_lat, q_lon) of
                               Inl e \<Rightarrow> Inl e
                             | Inr h \<Rightarrow>
                                 Inr ((Some new_id, Some (max h lit_0_01)),
                                      s\<lparr>red_vial := Some \<lparr>nodos = nds,
                                         aristas = aristas g @
                                           ((if (u, v) \<in> dir_set
                                             then [(u, new_id, max d_uq lit_0_01),
                                                   (new_id, v, max d_qv lit_0_01)]
                                             else []) @
                                            (if (v, u) \<in> dir_set
                                             then [(v, new_id, max d_qv lit_0_01),
                                                   (new_id, u, max d_uq lit_0_01)]
                                             else []))\<rparr>\<rparr>))))))"
        unfolding split_edge_and_connect_point_def new_id_def nds_def dir_set_def
        by (simp add: pr g Let_def split: sum.splits)
      show ?thesis
      proof (cases "dict_at nds u")
        case (Inl e)
        then show ?thesis using assms unfolding unf by simp
      next
        case cu: (Inr cu)
        show ?thesis
        proof (cases "haversine_km fl cu (q_lat, q_lon)")
          case (Inl e)
          then show ?thesis using assms cu unfolding unf by simp
        next
          case duq: (Inr d_uq)
          show ?thesis
          proof (cases "dict_at nds v")
            case (Inl e)
            then show ?thesis using assms cu duq unfolding unf by simp
          next
            case cv: (Inr cv)
            show ?thesis
            proof (cases "haversine_km fl (q_lat, q_lon) cv")
              case (Inl e)
              then show ?thesis using assms cu duq cv unfolding unf by simp
            next
              case dqv: (Inr d_qv)
              show ?thesis
              proof (cases "haversine_km fl p (q_lat, q_lon)")
                case (Inl e)
                then show ?thesis using assms cu duq cv dqv unfolding unf by simp
              next
                case h: (Inr h)
                let ?e1 = "if (u, v) \<in> dir_set
                           then [(u, new_id, max d_uq lit_0_01), (new_id, v, max d_qv lit_0_01)]
                           else []"
                let ?e2 = "if (v, u) \<in> dir_set
                           then [(v, new_id, max d_qv lit_0_01), (new_id, u, max d_uq lit_0_01)]
                           else []"
                have res: "r = (Some new_id, Some (max h lit_0_01))"
                  "s' = s\<lparr>red_vial := Some \<lparr>nodos = nds, aristas = aristas g @ (?e1 @ ?e2)\<rparr>\<rparr>"
                  using assms cu duq cv dqv h unfolding unf by simp_all
                have p1: "pesos_desde_001 ?e1" "pesos_desde_001 ?e2"
                  by (auto simp: pesos_desde_001_def)
                then have p: "pesos_desde_001 (?e1 @ ?e2)" by (simp add: pesos_desde_001_append)
                have l: "length (?e1 @ ?e2) \<le> 4" by simp
                have "red_vial s = Some g \<and>
                   nearest_edge_projection fl s p = Inr (Some (u, v, t, q_lat, q_lon, d)) \<and>
                   haversine_km fl p (q_lat, q_lon) = Inr h \<and>
                   r = (Some (prefix @ ''_'' @ str_nat (length (nodos g))), Some (max h lit_0_01)) \<and>
                   s' = s\<lparr>red_vial := Some
                        \<lparr>nodos = dict_set (prefix @ ''_'' @ str_nat (length (nodos g))) (q_lat, q_lon) (nodos g),
                         aristas = aristas g @ (?e1 @ ?e2)\<rparr>\<rparr> \<and>
                   pesos_desde_001 (?e1 @ ?e2) \<and> length (?e1 @ ?e2) \<le> 4"
                  using g pr h res p l unfolding new_id_def nds_def by blast
                then show ?thesis by blast
              qed
            qed
          qed
        qed
      qed
    qed
  qed
qed

lemma poner_nodo_char:
  assumes "poner_nodo node_id c s = Inr s1"
  shows "\<exists>g. red_vial s = Some g \<and> s1 = s\<lparr>red_vial := Some (g\<lparr>nodos := dict_set node_id c (nodos g)\<rparr>)\<rparr>"
  using assms by (cases "red_vial s") (auto simp: poner_nodo_def)

lemma poner_nodo_aristas: "poner_nodo node_id c s = Inr s1 \<Longrightarrow> aristas_de s1 = aristas_de s"
  by (cases "red_vial s") (auto simp: poner_nodo_def aristas_de_def)

lemma agregar_aristas_char:
  "agregar_aristas es s = Inr s' \<Longrightarrow> aristas_de s' = aristas_de s @ es \<and> nodos_de s' = nodos_de s"
  by (cases "red_vial s") (auto simp: agregar_aristas_def aristas_de_def nodos_de_def)

lemma agregar_aristas_ok:
  "red_vial s = Some g \<Longrightarrow>
   agregar_aristas es s = Inr (s\<lparr>red_vial := Some (g\<lparr>aristas := aristas g @ es\<rparr>)\<rparr>)"
  by (simp add: agregar_aristas_def)

lemma split_aristas:
  assumes "split_edge_and_connect_point fl s p prefix = Inr (r, s')"
  shows "\<exists>nuevas. aristas_de s' = aristas_de s @ nuevas \<and> pesos_desde_001 nuevas \<and> length nuevas \<le> 4"
proof -
  from split_char[OF assms] show ?thesis
  proof
    assume "nearest_edge_projection fl s p = Inr None \<and> r = (None, None) \<and> s' = s"
    then have "aristas_de s' = aristas_de s @ [] \<and> pesos_desde_001 [] \<and> length ([] :: arista list) \<le> 4"
      by (simp add: pesos_desde_001_Nil)
    then show ?thesis by blast
  next
    assume "\<exists>g u v t q_lat q_lon d nuevas h.
       red_vial s = Some g \<and>
       nearest_edge_projection fl s p = Inr (Some (u, v, t, q_lat, q_lon, d)) \<and>
       haversine_km fl p (q_lat, q_lon) = Inr h \<and>
       r = (Some (prefix @ ''_'' @ str_nat (length (nodos g))), Some (max h lit_0_01)) \<and>
       s' = s\<lparr>red_vial := Some
              \<lparr>nodos = dict_set (prefix @ ''_'' @ str_nat (length (nodos g))) (q_lat, q_lon) (nodos g),
               aristas = aristas g @ nuevas\<rparr>\<rparr> \<and>
       pesos_desde_001 nuevas \<and> length nuevas \<le> 4"
    then obtain g nds nuevas where "red_vial s = Some g"
      "s' = s\<lparr>red_vial := Some \<lparr>nodos = nds, aristas = aristas g @ nuevas\<rparr>\<rparr>"
      "pesos_desde_001 nuevas" "length nuevas \<le> 4" by blast
    then have "aristas_de s' = aristas_de s @ nuevas \<and> pesos_desde_001 nuevas \<and> length nuevas \<le> 4"
      by (simp add: aristas_de_def)
    then show ?thesis by blast
  qed
qed

lemma split_result:
  assumes "split_edge_and_connect_point fl s p prefix = Inr ((Some new_node, Some d_conn), s')"
  shows "\<exists>g q h. red_vial s = Some g \<and> new_node = prefix @ ''_'' @ str_nat (length (nodos g)) \<and>
           haversine_km fl p q = Inr h \<and> d_conn = max h lit_0_01 \<and> red_vial s' \<noteq> None"
proof -
  from split_char[OF assms] show ?thesis
  proof
    assume "nearest_edge_projection fl s p = Inr None \<and> (Some new_node, Some d_conn) = (None, None) \<and> s' = s"
    then show ?thesis by simp
  next
    assume "\<exists>g u v t q_lat q_lon d nuevas h.
       red_vial s = Some g \<and>
       nearest_edge_projection fl s p = Inr (Some (u, v, t, q_lat, q_lon, d)) \<and>
       haversine_km fl p (q_lat, q_lon) = Inr h \<and>
       (Some new_node, Some d_conn) = (Some (prefix @ ''_'' @ str_nat (length (nodos g))), Some (max h lit_0_01)) \<and>
       s' = s\<lparr>red_vial := Some
              \<lparr>nodos = dict_set (prefix @ ''_'' @ str_nat (length (nodos g))) (q_lat, q_lon) (nodos g),
               aristas = aristas g @ nuevas\<rparr>\<rparr> \<and>
       pesos_desde_001 nuevas \<and> length nuevas \<le> 4"
    then obtain g q_lat q_lon h nds ars where "red_vial s = Some g"
      "haversine_km fl p (q_lat, q_lon) = Inr h"
      "new_node = prefix @ ''_'' @ str_nat (length (nodos g))" "d_conn = max h lit_0_01"
      "s' = s\<lparr>red_vial := Some \<lparr>nodos = nds, aristas = ars\<rparr>\<rparr>"
      by auto
    then have "red_vial s = Some g \<and> new_node = prefix @ ''_'' @ str_nat (length (nodos g)) \<and>
           haversine_km fl p (q_lat, q_lon) = Inr h \<and> d_conn = max h lit_0_01 \<and> red_vial s' \<noteq> None"
      by simp
    then show ?thesis by blast
  qed
qed

lemma integrar_servicio_found:
  assumes p: "poner_nodo (''servicio_'' @ replace_space (nombre servicio)) (coordenadas_servicio servicio) s = Inr s1"
    and sp: "split_edge_and_connect_point fl s1 (coordenadas_servicio servicio) ''snap'' =
               Inr ((Some new_node, Some d_conn), s_sn)"
  shows "\<exists>s'. integrar_servicio fl servicio s = Inr s' \<and>
     aristas_de s' = aristas_de s_sn @
        [(''servicio_'' @ replace_space (nombre servicio), new_node, d_conn),
         (new_node, ''servicio_'' @ replace_space (nombre servicio), d_conn)] \<and>
     nodos_de s' = nodos_de s_sn"
proof -
  from split_result[OF sp] obtain g q h where g: "red_vial s1 = Some g"
    and nn: "new_node = ''snap'' @ ''_'' @ str_nat (length (nodos g))"
    and hq: "haversine_km fl (coordenadas_servicio servicio) q = Inr h"
    and dc: "d_conn = max h lit_0_01"
    and rv: "red_vial s_sn \<noteq> None" by (elim exE conjE) (rule that)
  then obtain gs where gs: "red_vial s_sn = Some gs" by blast
  have ne: "new_node \<noteq> []" using nn by simp
  let ?es = "[(''servicio_'' @ replace_space (nombre servicio), new_node, d_conn),
         (new_node, ''servicio_'' @ replace_space (nombre servicio), d_conn)]"
  have "integrar_servicio fl servicio s = agregar_aristas ?es s_sn"
    using p sp ne by (simp add: integrar_servicio_def Let_def)
  then have "integrar_servicio fl servicio s = Inr (s_sn\<lparr>red_vial := Some (gs\<lparr>aristas := aristas gs @ ?es\<rparr>)\<rparr>)"
    using agregar_aristas_ok[OF gs] by simp
  moreover have "aristas_de (s_sn\<lparr>red_vial := Some (gs\<lparr>aristas := aristas gs @ ?es\<rparr>)\<rparr>) = aristas_de s_sn @ ?es"
    "nodos_de (s_sn\<lparr>red_vial := Some (gs\<lparr>aristas := aristas gs @ ?es\<rparr>)\<rparr>) = nodos_de s_sn"
    using gs by (simp_all add: aristas_de_def nodos_de_def)
  ultimately show ?thesis by blast
qed

lemma integrar_referencia_found:
  assumes p: "poner_nodo (''ref_'' @ replace_space nombre_ref) coords s = Inr s1"
    and sp: "split_edge_and_connect_point fl s1 coords ''snap'' = Inr ((Some new_node, Some d_conn), s_sn)"
  shows "\<exists>s'. integrar_referencia fl (nombre_ref, coords) s = Inr s' \<and>
     aristas_de s' = aristas_de s_sn @
        [(''ref_'' @ replace_space nombre_ref, new_node, min d_conn (1 / 2)),
         (new_node, ''ref_'' @ replace_space nombre_ref, min d_conn (1 / 2))] \<and>
     nodos_de s' = nodos_de s_sn"
proof -
  from split_result[OF sp] obtain g q h where g: "red_vial s1 = Some g"
    and nn: "new_node = ''snap'' @ ''_'' @ str_nat (length (nodos g))"
    and hq: "haversine_km fl coords q = Inr h"
    and dc: "d_conn = max h lit_0_01"
    and rv: "red_vial s_sn \<noteq> None" by (elim exE conjE) (rule that)
  then obtain gs where gs: "red_vial s_sn = Some gs" by blast
  have ne: "new_node \<noteq> []" "new_node \<noteq> ''ref_'' @ replace_space nombre_ref" using nn by simp_all
  let ?es = "[(''ref_'' @ replace_space nombre_ref, new_node, min d_conn (1 / 2)),
         (new_node, ''ref_'' @ replace_space nombre_ref, min d_conn (1 / 2))]"
  have "integrar_referencia fl (nombre_ref, coords) s = agregar_aristas ?es s_sn"
    using p sp ne by (simp add: integrar_referencia_def Let_def)
  then have "integrar_referencia fl (nombre_ref, coords) s = Inr (s_sn\<lparr>red_vial := Some (gs\<lparr>aristas := aristas gs @ ?es\<rparr>)\<rparr>)"
    using agregar_aristas_ok[OF gs] by simp
  moreover have "aristas_de (s_sn\<lparr>red_vial := Some (gs\<lparr>aristas := aristas gs @ ?es\<rparr>)\<rparr>) = aristas_de s_sn @ ?es"
    "nodos_de (s_sn\<lparr>red_vial := Some (gs\<lparr>aristas := aristas gs @ ?es\<rparr>)\<rparr>) = nodos_de s_sn"
    using gs by (simp_all add: aristas_de_def nodos_de_def)
  ultimately show ?thesis by blast
qed

lemma integrar_servicio_pesos:
  assumes "integrar_servicio fl servicio s = Inr s'"
  shows "\<exists>nuevas. aristas_de s' = aristas_de s @ nuevas \<and> pesos_desde_001 nuevas"
proof -
  let ?id = "''servicio_'' @ replace_space (nombre servicio)"
  let ?c = "coordenadas_servicio servicio"
  show ?thesis
  proof (cases "poner_nodo ?id ?c s")
    case (Inl e)
    then show ?thesis using assms by (simp add: integrar_servicio_def Let_def)
  next
    case p: (Inr s1)
    show ?thesis
    proof (cases "split_edge_and_connect_point fl s1 ?c ''snap''")
      case (Inl e)
      then show ?thesis using assms p by (simp add: integrar_servicio_def Let_def)
    next
      case (Inr x)
      obtain a b s_sn where x: "x = ((a, b), s_sn)" by (cases x) auto
      note sp = Inr[unfolded x]
      from split_aristas[OF sp] obtain n1 where
        n1: "aristas_de s_sn = aristas_de s1 @ n1" "pesos_desde_001 n1" by (elim exE conjE) (rule that)
      have s1: "aristas_de s1 = aristas_de s" using p by (rule poner_nodo_aristas)
      show ?thesis
      proof (cases "\<exists>nn d. a = Some nn \<and> b = Some d")
        case False
        then have "integrar_servicio fl servicio s = Inr s_sn"
          using p sp by (cases a; cases b) (simp_all add: integrar_servicio_def Let_def)
        then have "s' = s_sn" using assms by simp
        then have "aristas_de s' = aristas_de s @ n1 \<and> pesos_desde_001 n1" using n1 s1 by simp
        then show ?thesis by (rule exI)
      next
        case True
        then obtain nn d where ab: "a = Some nn" "b = Some d" by (elim exE conjE) (rule that)
        note sp' = sp[unfolded ab]
        from split_result[OF sp'] obtain g q h where dc: "d = max h lit_0_01"
          by (elim exE conjE) (rule that)
        from integrar_servicio_found[OF p sp'] assms
        have e: "aristas_de s' = aristas_de s_sn @ [(?id, nn, d), (nn, ?id, d)]" by auto
        have "pesos_desde_001 [(?id, nn, d), (nn, ?id, d)]"
          unfolding dc by (simp add: pesos_desde_001_def)
        then have "aristas_de s' = aristas_de s @ (n1 @ [(?id, nn, d), (nn, ?id, d)]) \<and>
             pesos_desde_001 (n1 @ [(?id, nn, d), (nn, ?id, d)])"
          using e n1 s1 by (simp add: pesos_desde_001_append)
        then show ?thesis by (rule exI)
      qed
    qed
  qed
qed

lemma integrar_referencia_pesos:
  assumes "integrar_referencia fl (nombre_ref, coords) s = Inr s'"
  shows "\<exists>nuevas. aristas_de s' = aristas_de s @ nuevas \<and> pesos_desde_001 nuevas"
proof -
  let ?id = "''ref_'' @ replace_space nombre_ref"
  show ?thesis
  proof (cases "poner_nodo ?id coords s")
    case (Inl e)
    then show ?thesis using assms by (simp add: integrar_referencia_def Let_def)
  next
    case p: (Inr s1)
    show ?thesis
    proof (cases "split_edge_and_connect_point fl s1 coords ''snap''")
      case (Inl e)
      then show ?thesis using assms p by (simp add: integrar_referencia_def Let_def)
    next
      case (Inr x)
      obtain a b s_sn where x: "x = ((a, b), s_sn)" by (cases x) auto
      note sp = Inr[unfolded x]
      from split_aristas[OF sp] obtain n1 where
        n1: "aristas_de s_sn = aristas_de s1 @ n1" "pesos_desde_001 n1" by (elim exE conjE) (rule that)
      have s1: "aristas_de s1 = aristas_de s" using p by (rule poner_nodo_aristas)
      show ?thesis
      proof (cases "\<exists>nn d. a = Some nn \<and> b = Some d")
        case False
        then have "integrar_referencia fl (nombre_ref, coords) s = Inr s_sn"
          using p sp by (cases a; cases b) (simp_all add: integrar_referencia_def Let_def)
        then have "s' = s_sn" using assms by simp
        then have "aristas_de s' = aristas_de s @ n1 \<and> pesos_desde_001 n1" using n1 s1 by simp
        then show ?thesis by (rule exI)
      next
        case True
        then obtain nn d where ab: "a = Some nn" "b = Some d" by (elim exE conjE) (rule that)
        note sp' = sp[unfolded ab]
        from split_result[OF sp'] obtain g q h where dc: "d = max h lit_0_01"
          by (elim exE conjE) (rule that)
        from integrar_referencia_found[OF p sp'] assms
        have e: "aristas_de s' = aristas_de s_sn @ [(?id, nn, min d (1 / 2)), (nn, ?id, min d (1 / 2))]"
          by auto
        have "lit_0_01 \<le> min d (1 / 2)" unfolding dc using lit_0_01_bounds(2) by simp
        then have "pesos_desde_001 [(?id, nn, min d (1 / 2)), (nn, ?id, min d (1 / 2))]"
          by (simp add: pesos_desde_001_def)
        then have "aristas_de s' = aristas_de s @ (n1 @ [(?id, nn, min d (1 / 2)), (nn, ?id, min d (1 / 2))]) \<and>
             pesos_desde_001 (n1 @ [(?id, nn, min d (1 / 2)), (nn, ?id, min d (1 / 2))])"
          using e n1 s1 by (simp add: pesos_desde_001_append)
        then show ?thesis by (rule exI)
      qed
    qed
  qed
qed

lemma extiende_trans:
  assumes "\<exists>n1. b = a @ n1 \<and> pesos_desde_001 n1" "\<exists>n2. c = b @ n2 \<and> pesos_desde_001 n2"
  shows "\<exists>n. c = a @ n \<and> pesos_desde_001 n"
proof -
  from assms obtain n1 n2 where "b = a @ n1" "pesos_desde_001 n1" "c = b @ n2" "pesos_desde_001 n2"
    by (elim exE conjE) (rule that)
  then have "c = a @ (n1 @ n2) \<and> pesos_desde_001 (n1 @ n2)" by (simp add: pesos_desde_001_append)
  then show ?thesis by (rule exI)
qed

lemma integrar_red_pesos:
  assumes "integrar_servicios_en_red fl s = Inr s'"
  shows "\<exists>nuevas. aristas_de s' = aristas_de s @ nuevas \<and> pesos_desde_001 nuevas"
proof (cases "red_vial s")
  case None
  then have "s' = s" using assms by (simp add: integrar_servicios_en_red_def)
  then have "aristas_de s' = aristas_de s @ [] \<and> pesos_desde_001 []" by (simp add: pesos_desde_001_Nil)
  then show ?thesis by (rule exI)
next
  case (Some g)
  let ?P = "\<lambda>t. \<exists>nuevas. aristas_de t = aristas_de s @ nuevas \<and> pesos_desde_001 nuevas"
  have P0: "?P s"
  proof -
    have "aristas_de s = aristas_de s @ [] \<and> pesos_desde_001 []" by (simp add: pesos_desde_001_Nil)
    then show ?thesis by (rule exI)
  qed
  let ?f1 = "fold_err (integrar_servicio fl) (concat (map snd (servicios_emergencia s))) s"
  show ?thesis
  proof (cases ?f1)
    case (Inl e)
    then show ?thesis using assms Some by (simp add: integrar_servicios_en_red_def)
  next
    case (Inr s1)
    then have f2: "fold_err (integrar_referencia fl) (ubicaciones_referencia s1) s1 = Inr s'"
      using assms Some by (simp add: integrar_servicios_en_red_def)
    have P1: "?P s1"
      using Inr P0
    proof (rule fold_err_invariant)
      fix x t t' assume a: "?P t" "integrar_servicio fl x t = Inr t'"
      show "?P t'" using a(1) integrar_servicio_pesos[OF a(2)] by (rule extiende_trans)
    qed
    show "?P s'"
      using f2 P1
    proof (rule fold_err_invariant)
      fix x t t' assume a: "?P t" "integrar_referencia fl x t = Inr t'"
      obtain nm cs where x: "x = (nm, cs)" by (cases x)
      show "?P t'" using a(1) integrar_referencia_pesos[OF a(2)[unfolded x]] by (rule extiende_trans)
    qed
  qed
qed

lemma sin_sq_le_1: "sin (x::real) * sin x \<le> 1"
proof -
  have "sin x * sin x = (sin x)\<^sup>2" by (simp add: power2_eq_square)
  also have "\<dots> \<le> 1" using abs_sin_le_one[of x] by (simp add: abs_square_le_1)
  finally show ?thesis .
qed

lemma hav_ecuador: "haversine_km fl_exacta (0, x) (0, y) = Inr (h_ecuador x y)"
proof -
  have "\<not> 1 - sin ((y - x) * pi / 180 / 2) * sin ((y - x) * pi / 180 / 2) < 0"
    using sin_sq_le_1[of "(y - x) * pi / 180 / 2"] by simp
  then show ?thesis
    by (simp add: haversine_km_def fl_exacta_def py_sqrt_def h_ecuador_def Let_def not_square_less_zero)
qed

lemma str_nat_digits: "str_nat 0 = ''0''" "str_nat (Suc 0) = ''1''" "str_nat (Suc (Suc 0)) = ''2''"
  "str_nat (Suc (Suc (Suc 0))) = ''3''" "str_nat (Suc (Suc (Suc (Suc 0)))) = ''4''"
  "str_nat (Suc (Suc (Suc (Suc (Suc 0))))) = ''5''"
  by code_simp+

lemma nearest_linea:
  "nearest_edge_projection fl_exacta s_linea (0, 0) = Inr (Some (''node_0'', ''node_1'', 0, 0, 0, 0))"
  by (simp add: nearest_edge_projection_def s_linea_def g_linea_def paso_proyeccion_def dict_at_def
      dict_get_def latlon_to_xy_def xy_to_latlon_def fl_exacta_def py_div_def Let_def)

lemma split_linea:
  "split_edge_and_connect_point fl_exacta s_linea (0, 0) ''snap'' =
     Inr ((Some ''snap_2'', Some (max (h_ecuador 0 0) lit_0_01)),
          s_linea\<lparr>red_vial := Some
            \<lparr>nodos = [(''node_0'', (0, 0)), (''node_1'', (0, 1)), (''snap_2'', (0, 0))],
             aristas = [(''node_0'', ''node_1'', 1), (''node_1'', ''node_0'', 1),
                        (''node_0'', ''snap_2'', max (h_ecuador 0 0) lit_0_01),
                        (''snap_2'', ''node_1'', max (h_ecuador 0 1) lit_0_01),
                        (''node_1'', ''snap_2'', max (h_ecuador 0 1) lit_0_01),
                        (''snap_2'', ''node_0'', max (h_ecuador 0 0) lit_0_01)]\<rparr>\<rparr>)"
  unfolding split_edge_and_connect_point_def nearest_linea
  by (simp add: s_linea_def g_linea_def dict_at_def dict_get_def hav_ecuador str_nat_digits Let_def)

lemma procesar_linea:
  "procesar_red_osm fl_exacta fmt_linea doc_linea =
     Inr \<lparr>nodos = [(''node_0'', (0, 0)), (''node_1'', (0, 1))],
          aristas = [(''node_0'', ''node_1'', max (h_ecuador 0 1) lit_0_01),
                     (''node_1'', ''node_0'', max (h_ecuador 0 1) lit_0_01)]\<rparr>"
  by (simp add: procesar_red_osm_def doc_linea_def total_points_def es_way_def downsample_step_de_def
      objetivo_def paso_elemento_def paso_punto_def se_conserva_def fmt_linea_def dict_has_def dict_keys_def
      dict_at_def dict_get_def str_nat_digits paso_arista_def hav_ecuador dir_mode_de_def lower_def Let_def)

lemma h_ecuador_0: "h_ecuador x x = 0"
  by (simp add: h_ecuador_def atan2_exacto_def)

lemmas eval_defs = poner_nodo_def agregar_aristas_def split_edge_and_connect_point_def
  nearest_edge_projection_def paso_proyeccion_def latlon_to_xy_def xy_to_latlon_def fl_exacta_def
  py_div_def dict_at_def dict_get_def replace_space_def str_nat_digits h_ecuador_0 Let_def
  hav_ecuador[unfolded fl_exacta_def]

lemma max_0_lit: "max 0 lit_0_01 = lit_0_01" "min lit_0_01 (1 / 2) = lit_0_01"
  by (simp_all add: lit_0_01_def)

lemma integrar_servicio_linea:
  "integrar_servicio fl_exacta srv_o s_linea =
     Inr (s_linea\<lparr>red_vial := Some
            \<lparr>nodos = [(''node_0'', (0, 0)), (''node_1'', (0, 1)), (''servicio_A_B'', (0, 0)),
                      (''snap_3'', (0, 0))],
             aristas = [(''node_0'', ''node_1'', 1), (''node_1'', ''node_0'', 1),
                        (''node_0'', ''snap_3'', lit_0_01),
                        (''snap_3'', ''node_1'', max (h_ecuador 0 1) lit_0_01),
                        (''node_1'', ''snap_3'', max (h_ecuador 0 1) lit_0_01),
                        (''snap_3'', ''node_0'', lit_0_01),
                        (''servicio_A_B'', ''snap_3'', lit_0_01),
                        (''snap_3'', ''servicio_A_B'', lit_0_01)]\<rparr>\<rparr>)"
  by (simp add: integrar_servicio_def srv_o_def s_linea_def g_linea_def eval_defs max_0_lit)

lemma integrar_referencia_linea:
  "integrar_referencia fl_exacta (''R'', (0, 0)) s_linea =
     Inr (s_linea\<lparr>red_vial := Some
            \<lparr>nodos = [(''node_0'', (0, 0)), (''node_1'', (0, 1)), (''ref_R'', (0, 0)),
                      (''snap_3'', (0, 0))],
             aristas = [(''node_0'', ''node_1'', 1), (''node_1'', ''node_0'', 1),
                        (''node_0'', ''snap_3'', lit_0_01),
                        (''snap_3'', ''node_1'', max (h_ecuador 0 1) lit_0_01),
                        (''node_1'', ''snap_3'', max (h_ecuador 0 1) lit_0_01),
                        (''snap_3'', ''node_0'', lit_0_01),
                        (''ref_R'', ''snap_3'', lit_0_01),
                        (''snap_3'', ''ref_R'', lit_0_01)]\<rparr>\<rparr>)"
  by (simp add: integrar_referencia_def s_linea_def g_linea_def eval_defs max_0_lit)

lemma integrar_red_uno:
  "integrar_servicios_en_red fl_exacta s_uno =
     Inr (s_uno\<lparr>red_vial := Some
            \<lparr>nodos = [(''node_0'', (0, 0)), (''node_1'', (0, 1)), (''servicio_A_B'', (0, 0)),
                      (''snap_3'', (0, 0)), (''ref_R'', (0, 0)), (''snap_5'', (0, 0))],
             aristas = [(''node_0'', ''node_1'', 1), (''node_1'', ''node_0'', 1),
                        (''node_0'', ''snap_3'', lit_0_01),
                        (''snap_3'', ''node_1'', max (h_ecuador 0 1) lit_0_01),
                        (''node_1'', ''snap_3'', max (h_ecuador 0 1) lit_0_01),
                        (''snap_3'', ''node_0'', lit_0_01),
                        (''servicio_A_B'', ''snap_3'', lit_0_01),
                        (''snap_3'', ''servicio_A_B'', lit_0_01),
                        (''node_0'', ''snap_5'', lit_0_01),
                        (''snap_5'', ''node_1'', max (h_ecuador 0 1) lit_0_01),
                        (''node_1'', ''snap_5'', max (h_ecuador 0 1) lit_0_01),
                        (''snap_5'', ''node_0'', lit_0_01),
                        (''ref_R'', ''snap_5'', lit_0_01),
                        (''snap_5'', ''ref_R'', lit_0_01)]\<rparr>\<rparr>)"
  by (simp add: integrar_servicios_en_red_def integrar_servicio_def integrar_referencia_def
      s_uno_def srv_o_def s_linea_def g_linea_def eval_defs max_0_lit sistema_inicial_def)

lemma integrar_red_doc:
  "integrar_servicios_en_red fl_exacta
     (s_uno\<lparr>red_vial := Some
        \<lparr>nodos = [(''node_0'', (0, 0)), (''node_1'', (0, 1))],
         aristas = [(''node_0'', ''node_1'', max (h_ecuador 0 1) lit_0_01),
                    (''node_1'', ''node_0'', max (h_ecuador 0 1) lit_0_01)]\<rparr>\<rparr>) =
     Inr (s_uno\<lparr>red_vial := Some
            \<lparr>nodos = [(''node_0'', (0, 0)), (''node_1'', (0, 1)), (''servicio_A_B'', (0, 0)),
                      (''snap_3'', (0, 0)), (''ref_R'', (0, 0)), (''snap_5'', (0, 0))],
             aristas = [(''node_0'', ''node_1'', max (h_ecuador 0 1) lit_0_01),
                        (''node_1'', ''node_0'', max (h_ecuador 0 1) lit_0_01),
                        (''node_0'', ''snap_3'', lit_0_01),
                        (''snap_3'', ''node_1'', max (h_ecuador 0 1) lit_0_01),
                        (''node_1'', ''snap_3'', max (h_ecuador 0 1) lit_0_01),
                        (''snap_3'', ''node_0'', lit_0_01),
                        (''servicio_A_B'', ''snap_3'', lit_0_01),
                        (''snap_3'', ''servicio_A_B'', lit_0_01),
                        (''node_0'', ''snap_5'', lit_0_01),
                        (''snap_5'', ''node_1'', max (h_ecuador 0 1) lit_0_01),
                        (''node_1'', ''snap_5'', max (h_ecuador 0 1) lit_0_01),
                        (''snap_5'', ''node_0'', lit_0_01),
                        (''ref_R'', ''snap_5'', lit_0_01),
                        (''snap_5'', ''ref_R'', lit_0_01)]\<rparr>\<rparr>)"
  by (simp add: integrar_servicios_en_red_def integrar_servicio_def integrar_referencia_def
      s_uno_def srv_o_def s_linea_def g_linea_def eval_defs max_0_lit sistema_inicial_def)

lemma pesos_hd:
  assumes "pesos_desde_001 es" and "es \<noteq> []"
  shows "lit_0_01 \<le> snd (snd (hd es))"
proof -
  from assms(2) have "hd es \<in> set es" by simp
  with assms(1) show ?thesis by (auto simp: pesos_desde_001_def)
qed

lemma pesos_last:
  assumes "\<exists>nuevas. xs' = xs @ nuevas \<and> pesos_desde_001 nuevas" and "length xs < length xs'"
  shows "lit_0_01 \<le> snd (snd (last xs'))"
proof -
  from assms(1) obtain nuevas where n: "xs' = xs @ nuevas" "pesos_desde_001 nuevas"
    by (elim exE conjE) (rule that)
  from n(1) assms(2) have ne: "nuevas \<noteq> []" by auto
  then have "last xs' \<in> set nuevas" using n(1) by simp
  with n(2) show ?thesis by (auto simp: pesos_desde_001_def)
qed

lemma floor_hd:
  assumes "f = Inr g" and "aristas g \<noteq> []"
    and "\<forall>g. f = Inr g \<longrightarrow> pesos_desde_001 (aristas g)"
  shows "\<exists>g. f = Inr g \<and> lit_0_01 \<le> snd (snd (hd (aristas g)))"
proof -
  from assms(3) assms(1) have "pesos_desde_001 (aristas g)" by simp
  from pesos_hd[OF this assms(2)] assms(1) show ?thesis by blast
qed

lemma floor_last:
  assumes "f = Inr s'" and "length xs < length (aristas_de s')"
    and "\<forall>s'. f = Inr s' \<longrightarrow> (\<exists>nuevas. aristas_de s' = xs @ nuevas \<and> pesos_desde_001 nuevas)"
  shows "\<exists>s'. f = Inr s' \<and> lit_0_01 \<le> snd (snd (last (aristas_de s')))"
proof -
  from assms(3) assms(1)
  have "\<exists>nuevas. aristas_de s' = xs @ nuevas \<and> pesos_desde_001 nuevas" by simp
  from pesos_last[OF this assms(2)] assms(1) show ?thesis by blast
qed

lemma floor_last_par:
  assumes "f = Inr (r, s')" and "length xs < length (aristas_de s')"
    and "\<forall>r s'. f = Inr (r, s') \<longrightarrow>
           (\<exists>nuevas. aristas_de s' = xs @ nuevas \<and> pesos_desde_001 nuevas)"
  shows "\<exists>r s'. f = Inr (r, s') \<and> lit_0_01 \<le> snd (snd (last (aristas_de s')))"
proof -
  from assms(3) assms(1)
  have "\<exists>nuevas. aristas_de s' = xs @ nuevas \<and> pesos_desde_001 nuevas" by simp
  from pesos_last[OF this assms(2)] assms(1) show ?thesis by blast
qed

lemma floor_hd_dos:
  assumes "f = Inr g" and "h g = Inr s'" and "aristas_de s' \<noteq> []"
    and "\<forall>g s'. f = Inr g \<longrightarrow> h g = Inr s' \<longrightarrow> pesos_desde_001 (aristas_de s')"
  shows "\<exists>g s'. f = Inr g \<and> h g = Inr s' \<and> lit_0_01 \<le> snd (snd (hd (aristas_de s')))"
proof -
  from assms(4) assms(1) assms(2) have "pesos_desde_001 (aristas_de s')" by simp
  from pesos_hd[OF this assms(3)] assms(1) assms(2) show ?thesis by blast
qed

text \<open>
  Claim C5.  Every edge that the program puts into an edge list has a weight of at least
  the float \<open>0.01\<close>, which is not below 0.01 km: the edges that the construction from the
  ways emits, the edges that splitting an edge appends, the two edges that connect a
  service or a reference location to its snap node, and so every edge that the whole
  integration appends; hence every edge of a graph that was built from ways and then
  integrated.  An operation that raises returns no edge list.
\<close>

theorem edge_weight_floor:
  "(\<forall>g. procesar_red_osm fl fmt elements = Inr g \<longrightarrow> pesos_desde_001 (aristas g)) \<and>
   (\<forall>r s'. split_edge_and_connect_point fl s p prefix = Inr (r, s') \<longrightarrow>
      (\<exists>nuevas. aristas_de s' = aristas_de s @ nuevas \<and> pesos_desde_001 nuevas)) \<and>
   (\<forall>s'. integrar_servicio fl servicio s = Inr s' \<longrightarrow>
      (\<exists>nuevas. aristas_de s' = aristas_de s @ nuevas \<and> pesos_desde_001 nuevas)) \<and>
   (\<forall>s'. integrar_referencia fl (nombre_ref, coords) s = Inr s' \<longrightarrow>
      (\<exists>nuevas. aristas_de s' = aristas_de s @ nuevas \<and> pesos_desde_001 nuevas)) \<and>
   (\<forall>s'. integrar_servicios_en_red fl s = Inr s' \<longrightarrow>
      (\<exists>nuevas. aristas_de s' = aristas_de s @ nuevas \<and> pesos_desde_001 nuevas)) \<and>
   (\<forall>g s'. procesar_red_osm fl fmt elements = Inr g \<longrightarrow>
      integrar_servicios_en_red fl (s\<lparr>red_vial := Some g\<rparr>) = Inr s' \<longrightarrow>
      pesos_desde_001 (aristas_de s')) \<and>
   1 / 100 \<le> lit_0_01"
proof (intro conjI allI impI)
  fix g assume "procesar_red_osm fl fmt elements = Inr g"
  then show "pesos_desde_001 (aristas g)" by (rule procesar_pesos)
next
  fix r s' assume "split_edge_and_connect_point fl s p prefix = Inr (r, s')"
  from split_aristas[OF this]
  show "\<exists>nuevas. aristas_de s' = aristas_de s @ nuevas \<and> pesos_desde_001 nuevas" by blast
next
  fix s' assume "integrar_servicio fl servicio s = Inr s'"
  then show "\<exists>nuevas. aristas_de s' = aristas_de s @ nuevas \<and> pesos_desde_001 nuevas"
    by (rule integrar_servicio_pesos)
next
  fix s' assume "integrar_referencia fl (nombre_ref, coords) s = Inr s'"
  then show "\<exists>nuevas. aristas_de s' = aristas_de s @ nuevas \<and> pesos_desde_001 nuevas"
    by (rule integrar_referencia_pesos)
next
  fix s' assume "integrar_servicios_en_red fl s = Inr s'"
  then show "\<exists>nuevas. aristas_de s' = aristas_de s @ nuevas \<and> pesos_desde_001 nuevas"
    by (rule integrar_red_pesos)
next
  fix g s'
  assume g: "procesar_red_osm fl fmt elements = Inr g"
    and i: "integrar_servicios_en_red fl (s\<lparr>red_vial := Some g\<rparr>) = Inr s'"
  from integrar_red_pesos[OF i] obtain nuevas
    where n: "aristas_de s' = aristas_de (s\<lparr>red_vial := Some g\<rparr>) @ nuevas" "pesos_desde_001 nuevas"
    by (elim exE conjE) (rule that)
  have "aristas_de (s\<lparr>red_vial := Some g\<rparr>) = aristas g" by (simp add: aristas_de_def)
  with n procesar_pesos[OF g] show "pesos_desde_001 (aristas_de s')"
    by (simp add: pesos_desde_001_append)
next
  show "1 / 100 \<le> lit_0_01" by (rule lit_0_01_bounds(1))
qed

theorem edge_weight_floor_witness:
  "(\<exists>g. procesar_red_osm fl_exacta fmt_linea doc_linea = Inr g \<and>
        lit_0_01 \<le> snd (snd (hd (aristas g)))) \<and>
   (\<exists>r s'. split_edge_and_connect_point fl_exacta s_linea (0, 0) ''snap'' = Inr (r, s') \<and>
        lit_0_01 \<le> snd (snd (last (aristas_de s')))) \<and>
   (\<exists>s'. integrar_servicio fl_exacta srv_o s_linea = Inr s' \<and>
        lit_0_01 \<le> snd (snd (last (aristas_de s')))) \<and>
   (\<exists>s'. integrar_referencia fl_exacta (''R'', (0, 0)) s_linea = Inr s' \<and>
        lit_0_01 \<le> snd (snd (last (aristas_de s')))) \<and>
   (\<exists>s'. integrar_servicios_en_red fl_exacta s_uno = Inr s' \<and>
        lit_0_01 \<le> snd (snd (last (aristas_de s')))) \<and>
   (\<exists>g s'. procesar_red_osm fl_exacta fmt_linea doc_linea = Inr g \<and>
        integrar_servicios_en_red fl_exacta (s_uno\<lparr>red_vial := Some g\<rparr>) = Inr s' \<and>
        lit_0_01 \<le> snd (snd (hd (aristas_de s'))))"
proof -
  note T1 = edge_weight_floor[where fl = fl_exacta and fmt = fmt_linea and elements = doc_linea
      and s = s_linea and p = "(0, 0)" and prefix = "''snap''" and servicio = srv_o
      and nombre_ref = "''R''" and coords = "(0, 0)"]
  note T2 = edge_weight_floor[where fl = fl_exacta and fmt = fmt_linea and elements = doc_linea
      and s = s_uno]
  note ev = aristas_de_def s_linea_def s_uno_def g_linea_def
  have c1: "\<exists>g. procesar_red_osm fl_exacta fmt_linea doc_linea = Inr g \<and>
        lit_0_01 \<le> snd (snd (hd (aristas g)))"
    by (rule floor_hd[OF procesar_linea _ T1[THEN conjunct1]]) simp
  have c2: "\<exists>r s'. split_edge_and_connect_point fl_exacta s_linea (0, 0) ''snap'' = Inr (r, s') \<and>
        lit_0_01 \<le> snd (snd (last (aristas_de s')))"
    by (rule floor_last_par[OF split_linea _ T1[THEN conjunct2, THEN conjunct1]]) (simp add: ev)
  have c3: "\<exists>s'. integrar_servicio fl_exacta srv_o s_linea = Inr s' \<and>
        lit_0_01 \<le> snd (snd (last (aristas_de s')))"
    by (rule floor_last[OF integrar_servicio_linea _
          T1[THEN conjunct2, THEN conjunct2, THEN conjunct1]]) (simp add: ev)
  have c4: "\<exists>s'. integrar_referencia fl_exacta (''R'', (0, 0)) s_linea = Inr s' \<and>
        lit_0_01 \<le> snd (snd (last (aristas_de s')))"
    by (rule floor_last[OF integrar_referencia_linea _
          T1[THEN conjunct2, THEN conjunct2, THEN conjunct2, THEN conjunct1]]) (simp add: ev)
  have c5: "\<exists>s'. integrar_servicios_en_red fl_exacta s_uno = Inr s' \<and>
        lit_0_01 \<le> snd (snd (last (aristas_de s')))"
    by (rule floor_last[OF integrar_red_uno _
          T2[THEN conjunct2, THEN conjunct2, THEN conjunct2, THEN conjunct2, THEN conjunct1]])
       (simp add: ev)
  have c6: "\<exists>g s'. procesar_red_osm fl_exacta fmt_linea doc_linea = Inr g \<and>
        integrar_servicios_en_red fl_exacta (s_uno\<lparr>red_vial := Some g\<rparr>) = Inr s' \<and>
        lit_0_01 \<le> snd (snd (hd (aristas_de s')))"
    by (rule floor_hd_dos[where h = "\<lambda>g. integrar_servicios_en_red fl_exacta (s_uno\<lparr>red_vial := Some g\<rparr>)",
          OF procesar_linea integrar_red_doc _
          T2[THEN conjunct2, THEN conjunct2, THEN conjunct2, THEN conjunct2, THEN conjunct2,
             THEN conjunct1]]) (simp add: ev)
  from c1 c2 c3 c4 c5 c6 show ?thesis by (intro conjI)
qed

lemma poner_ref_linea:
  "poner_nodo (''ref_'' @ replace_space ''R'') (0, 0) s_linea =
     Inr (s_linea\<lparr>red_vial := Some
       \<lparr>nodos = [(''node_0'', (0, 0)), (''node_1'', (0, 1)), (''ref_R'', (0, 0))],
        aristas = [(''node_0'', ''node_1'', 1), (''node_1'', ''node_0'', 1)]\<rparr>\<rparr>)"
  by (simp add: poner_nodo_def s_linea_def g_linea_def replace_space_def)

lemma split_ref_linea:
  "split_edge_and_connect_point fl_exacta
     (s_linea\<lparr>red_vial := Some
       \<lparr>nodos = [(''node_0'', (0, 0)), (''node_1'', (0, 1)), (''ref_R'', (0, 0))],
        aristas = [(''node_0'', ''node_1'', 1), (''node_1'', ''node_0'', 1)]\<rparr>\<rparr>) (0, 0) ''snap'' =
     Inr ((Some ''snap_3'', Some lit_0_01),
          s_linea\<lparr>red_vial := Some
            \<lparr>nodos = [(''node_0'', (0, 0)), (''node_1'', (0, 1)), (''ref_R'', (0, 0)),
                      (''snap_3'', (0, 0))],
             aristas = [(''node_0'', ''node_1'', 1), (''node_1'', ''node_0'', 1),
                        (''node_0'', ''snap_3'', lit_0_01),
                        (''snap_3'', ''node_1'', max (h_ecuador 0 1) lit_0_01),
                        (''node_1'', ''snap_3'', max (h_ecuador 0 1) lit_0_01),
                        (''snap_3'', ''node_0'', lit_0_01)]\<rparr>\<rparr>)"
  by (simp add: s_linea_def eval_defs max_0_lit)

lemma poner_srv_linea:
  "poner_nodo (''servicio_'' @ replace_space (nombre srv_o)) (coordenadas_servicio srv_o) s_linea =
     Inr (s_linea\<lparr>red_vial := Some
       \<lparr>nodos = [(''node_0'', (0, 0)), (''node_1'', (0, 1)), (''servicio_A_B'', (0, 0))],
        aristas = [(''node_0'', ''node_1'', 1), (''node_1'', ''node_0'', 1)]\<rparr>\<rparr>)"
  by (simp add: poner_nodo_def s_linea_def g_linea_def replace_space_def srv_o_def)

lemma split_srv_linea:
  "split_edge_and_connect_point fl_exacta
     (s_linea\<lparr>red_vial := Some
       \<lparr>nodos = [(''node_0'', (0, 0)), (''node_1'', (0, 1)), (''servicio_A_B'', (0, 0))],
        aristas = [(''node_0'', ''node_1'', 1), (''node_1'', ''node_0'', 1)]\<rparr>\<rparr>)
     (coordenadas_servicio srv_o) ''snap'' =
     Inr ((Some ''snap_3'', Some lit_0_01),
          s_linea\<lparr>red_vial := Some
            \<lparr>nodos = [(''node_0'', (0, 0)), (''node_1'', (0, 1)), (''servicio_A_B'', (0, 0)),
                      (''snap_3'', (0, 0))],
             aristas = [(''node_0'', ''node_1'', 1), (''node_1'', ''node_0'', 1),
                        (''node_0'', ''snap_3'', lit_0_01),
                        (''snap_3'', ''node_1'', max (h_ecuador 0 1) lit_0_01),
                        (''node_1'', ''snap_3'', max (h_ecuador 0 1) lit_0_01),
                        (''snap_3'', ''node_0'', lit_0_01)]\<rparr>\<rparr>)"
  by (simp add: s_linea_def srv_o_def eval_defs max_0_lit)

text \<open>
  Claim C7.  When the snapping of a reference location gives a snap node with connection
  distance \<open>d_conn\<close>, the integration step returns, and it appends exactly two edges,
  reference to snap node and back, both of weight \<open>min d_conn 0.5\<close>, which is at most 0.5.
  When the snapping of a service gives a snap node, the step appends exactly two edges,
  service to snap node and back, both of weight \<open>d_conn\<close> itself, whatever its size;
  \<open>d_conn\<close> is the haversine distance from the point to its projection, raised to 0.01 if
  it is less.
\<close>

theorem reference_edge_cap:
  "(\<forall>s1 new_node d_conn s_sn.
      poner_nodo (''ref_'' @ replace_space nombre_ref) coords s = Inr s1 \<longrightarrow>
      split_edge_and_connect_point fl s1 coords ''snap'' = Inr ((Some new_node, Some d_conn), s_sn) \<longrightarrow>
      (\<exists>s'. integrar_referencia fl (nombre_ref, coords) s = Inr s' \<and>
            aristas_de s' = aristas_de s_sn @
              [(''ref_'' @ replace_space nombre_ref, new_node, min d_conn (1 / 2)),
               (new_node, ''ref_'' @ replace_space nombre_ref, min d_conn (1 / 2))] \<and>
            nodos_de s' = nodos_de s_sn \<and>
            min d_conn (1 / 2) \<le> 1 / 2)) \<and>
   (\<forall>s1 new_node d_conn s_sn.
      poner_nodo (''servicio_'' @ replace_space (nombre servicio)) (coordenadas_servicio servicio) s
        = Inr s1 \<longrightarrow>
      split_edge_and_connect_point fl s1 (coordenadas_servicio servicio) ''snap'' =
        Inr ((Some new_node, Some d_conn), s_sn) \<longrightarrow>
      (\<exists>s' q h. integrar_servicio fl servicio s = Inr s' \<and>
            aristas_de s' = aristas_de s_sn @
              [(''servicio_'' @ replace_space (nombre servicio), new_node, d_conn),
               (new_node, ''servicio_'' @ replace_space (nombre servicio), d_conn)] \<and>
            nodos_de s' = nodos_de s_sn \<and>
            haversine_km fl (coordenadas_servicio servicio) q = Inr h \<and>
            d_conn = max h lit_0_01))"
proof (intro conjI allI impI)
  fix s1 new_node d_conn s_sn
  assume p: "poner_nodo (''ref_'' @ replace_space nombre_ref) coords s = Inr s1"
    and sp: "split_edge_and_connect_point fl s1 coords ''snap'' = Inr ((Some new_node, Some d_conn), s_sn)"
  from integrar_referencia_found[OF p sp] obtain s' where
    "integrar_referencia fl (nombre_ref, coords) s = Inr s'"
    "aristas_de s' = aristas_de s_sn @
        [(''ref_'' @ replace_space nombre_ref, new_node, min d_conn (1 / 2)),
         (new_node, ''ref_'' @ replace_space nombre_ref, min d_conn (1 / 2))]"
    "nodos_de s' = nodos_de s_sn"
    by (elim exE conjE) (rule that)
  moreover have "min d_conn (1 / 2) \<le> 1 / 2" by simp
  ultimately show "\<exists>s'. integrar_referencia fl (nombre_ref, coords) s = Inr s' \<and>
            aristas_de s' = aristas_de s_sn @
              [(''ref_'' @ replace_space nombre_ref, new_node, min d_conn (1 / 2)),
               (new_node, ''ref_'' @ replace_space nombre_ref, min d_conn (1 / 2))] \<and>
            nodos_de s' = nodos_de s_sn \<and>
            min d_conn (1 / 2) \<le> 1 / 2"
    by (intro exI[of _ s'] conjI)
next
  fix s1 new_node d_conn s_sn
  assume p: "poner_nodo (''servicio_'' @ replace_space (nombre servicio)) (coordenadas_servicio servicio) s
        = Inr s1"
    and sp: "split_edge_and_connect_point fl s1 (coordenadas_servicio servicio) ''snap'' =
        Inr ((Some new_node, Some d_conn), s_sn)"
  from integrar_servicio_found[OF p sp] obtain s' where a:
    "integrar_servicio fl servicio s = Inr s'"
    "aristas_de s' = aristas_de s_sn @
        [(''servicio_'' @ replace_space (nombre servicio), new_node, d_conn),
         (new_node, ''servicio_'' @ replace_space (nombre servicio), d_conn)]"
    "nodos_de s' = nodos_de s_sn"
    by (elim exE conjE) (rule that)
  from split_result[OF sp] obtain q h where b:
    "haversine_km fl (coordenadas_servicio servicio) q = Inr h" "d_conn = max h lit_0_01"
    by (elim exE conjE) (rule that)
  from a b show "\<exists>s' q h. integrar_servicio fl servicio s = Inr s' \<and>
            aristas_de s' = aristas_de s_sn @
              [(''servicio_'' @ replace_space (nombre servicio), new_node, d_conn),
               (new_node, ''servicio_'' @ replace_space (nombre servicio), d_conn)] \<and>
            nodos_de s' = nodos_de s_sn \<and>
            haversine_km fl (coordenadas_servicio servicio) q = Inr h \<and>
            d_conn = max h lit_0_01"
    by (intro exI[of _ s'] exI[of _ q] exI[of _ h] conjI)
qed

theorem reference_edge_cap_witness:
  "(\<exists>s'. integrar_referencia fl_exacta (''R'', (0, 0)) s_linea = Inr s' \<and>
         last (aristas_de s') = (''snap_3'', ''ref_R'', min lit_0_01 (1 / 2))) \<and>
   (\<exists>s'. integrar_servicio fl_exacta srv_o s_linea = Inr s' \<and>
         last (aristas_de s') = (''snap_3'', ''servicio_A_B'', lit_0_01))"
proof -
  note T = reference_edge_cap[where fl = fl_exacta and s = s_linea and nombre_ref = "''R''"
      and coords = "(0, 0)" and servicio = srv_o]
  have r: "\<exists>s'. integrar_referencia fl_exacta (''R'', (0, 0)) s_linea = Inr s' \<and>
         last (aristas_de s') = (''snap_3'', ''ref_R'', min lit_0_01 (1 / 2))"
    using T[THEN conjunct1, rule_format, OF poner_ref_linea split_ref_linea]
    by (elim exE conjE) (simp add: replace_space_def)
  have v: "\<exists>s'. integrar_servicio fl_exacta srv_o s_linea = Inr s' \<and>
         last (aristas_de s') = (''snap_3'', ''servicio_A_B'', lit_0_01)"
    using T[THEN conjunct2, rule_format, OF poner_srv_linea split_srv_linea]
    by (elim exE conjE) (simp add: replace_space_def srv_o_def)
  from r v show ?thesis by (rule conjI)
qed








end
